theory Spec2Isabelle
  imports Complex_Main "HOL-Library.Multiset"
begin

section \<open>Strings\<close>

text \<open>
  A string of the program is a sequence of code units. The model keeps the code units
  0..255 (the Latin-1 range), on which \<open>String.prototype.trim\<close> and
  \<open>String.prototype.toLowerCase\<close> act as written below: the white space and line
  terminators of that range are TAB, LF, VT, FF, CR, SPACE and NBSP, and the letters with
  a lower-case partner are A..Z and U+00C0..U+00DE without U+00D7.
\<close>

definition isWhiteSpace :: "char \<Rightarrow> bool" where
  "isWhiteSpace c = ((of_char c :: nat) \<in> {9, 10, 11, 12, 13, 32, 160})"

definition trimStart :: "string \<Rightarrow> string" where
  "trimStart s = dropWhile isWhiteSpace s"

definition trimEnd :: "string \<Rightarrow> string" where
  "trimEnd s = rev (dropWhile isWhiteSpace (rev s))"

definition trim :: "string \<Rightarrow> string" where
  "trim s = trimEnd (trimStart s)"

definition toLowerChar :: "char \<Rightarrow> char" where
  "toLowerChar c =
     (let n = (of_char c :: nat)
      in if 65 \<le> n \<and> n \<le> 90 then char_of (n + 32)
         else if 192 \<le> n \<and> n \<le> 222 \<and> n \<noteq> 215 then char_of (n + 32)
         else c)"

definition toLowerCase :: "string \<Rightarrow> string" where
  "toLowerCase s = map toLowerChar s"

section \<open>The random source\<close>

text \<open>
  \<open>Math.random\<close> is ambient state. The model threads it explicitly: a random
  source is an infinite sequence of naturals, and drawing
  \<open>Math.floor(Math.random() * n)\<close> takes the next element modulo \<open>n\<close>, so
  that each of \<open>0, ..., n - 1\<close> can come out and nothing else.
\<close>

type_synonym rng = "nat \<Rightarrow> nat"

definition random_below :: "nat \<Rightarrow> rng \<Rightarrow> nat \<times> rng" where
  "random_below n g = (g 0 mod n, \<lambda>k. g (Suc k))"

section \<open>shuffleArray\<close>

text \<open>
  Arrays are mutable objects, so the function is modelled on an explicit store: a store
  is the list of the arrays allocated so far, and a reference is a position in it.
  \<open>[...input]\<close> allocates a copy; the loop writes to the copy only.
\<close>

type_synonym 'a store = "'a list list"

definition alloc :: "'a list \<Rightarrow> 'a store \<Rightarrow> nat \<times> 'a store" where
  "alloc xs h = (length h, h @ [xs])"

fun shuffle_loop_st :: "nat \<Rightarrow> nat \<Rightarrow> 'a store \<Rightarrow> rng \<Rightarrow> 'a store \<times> rng" where
  "shuffle_loop_st draft 0 h g = (h, g)"
| "shuffle_loop_st draft (Suc i) h g =
     (let (swapIndex, g') = random_below (Suc i + 1) g;
          arr = h ! draft
      in shuffle_loop_st draft i
           (h[draft := arr[Suc i := arr ! swapIndex, swapIndex := arr ! Suc i]]) g')"

definition shuffleArray_st :: "nat \<Rightarrow> 'a store \<Rightarrow> rng \<Rightarrow> (nat \<times> 'a store) \<times> rng" where
  "shuffleArray_st input h g =
     (let (draft, h1) = alloc (h ! input) h;
          (h2, g') = shuffle_loop_st draft (length (h1 ! draft) - 1) h1 g
      in ((draft, h2), g'))"

text \<open>
  The same function on values: the array returned for a given input array. The rest of
  the program only reads the returned array, so it is modelled on values.
\<close>

fun shuffle_loop :: "nat \<Rightarrow> 'a list \<Rightarrow> rng \<Rightarrow> 'a list \<times> rng" where
  "shuffle_loop 0 draft g = (draft, g)"
| "shuffle_loop (Suc i) draft g =
     (let (swapIndex, g') = random_below (Suc i + 1) g
      in shuffle_loop i (draft[Suc i := draft ! swapIndex, swapIndex := draft ! Suc i]) g')"

definition shuffleArray :: "'a list \<Rightarrow> rng \<Rightarrow> 'a list \<times> rng" where
  "shuffleArray input g = shuffle_loop (length input - 1) input g"

section \<open>The question bank and the deck\<close>

text \<open>
  Modelled from the spec: the type \<open>FlashcardSource\<close> and the constant
  \<open>FLASHCARD_SOURCES\<close> are declared in \<open>data/questions\<close>. The record has the
  fields the program reads (identifier, prompt, answer, optional curated distractors,
  reference, category, optional image); a category is a string. The bank itself is a
  parameter \<open>allSources\<close> of every function that reads it.
\<close>

record FlashcardSource =
  src_id :: string
  src_prompt :: string
  src_answer :: string
  src_distractors :: "string list option"
  src_reference :: string
  src_category :: string
  src_imageUrl :: "string option"

record PermitQuestion =
  q_id :: string
  q_prompt :: string
  q_options :: "string list"
  q_answerIndex :: nat
  q_answer :: string
  q_reference :: string
  q_category :: string
  q_imageUrl :: "string option"

definition CATEGORY_ALL :: string where
  "CATEGORY_ALL = ''all''"

definition PRACTICE_TEST_SIZE :: nat where
  "PRACTICE_TEST_SIZE = 50"

section \<open>buildOptions\<close>

definition desiredOptionCount :: nat where
  "desiredOptionCount = 4"

text \<open>
  A \<open>Set<string>\<close> keeps its elements in insertion order and compares them as
  strings: a list without repetition, \<open>size\<close> its length.
\<close>

definition set_add :: "string \<Rightarrow> string list \<Rightarrow> string list" where
  "set_add x s = (if x \<in> set s then s else s @ [x])"

text \<open>
  \<open>addCandidate\<close>, with the answer of the source and the set it closes over as
  arguments; the absent argument (\<open>undefined\<close>) is \<open>None\<close>.
\<close>

definition addCandidate :: "string \<Rightarrow> string list \<Rightarrow> string option \<Rightarrow> string list" where
  "addCandidate answer distractorSet candidate =
     (case candidate of
        None \<Rightarrow> distractorSet
      | Some c \<Rightarrow>
          if c = [] then distractorSet
          else let trimmed = trim c
               in if length trimmed = 0 then distractorSet
                  else if toLowerCase trimmed = toLowerCase (trim answer) then distractorSet
                  else set_add trimmed distractorSet)"

text \<open>The \<open>forEach\<close> over the shuffled curated distractors.\<close>

definition addDistractors :: "string \<Rightarrow> string list \<Rightarrow> string list \<Rightarrow> string list" where
  "addDistractors answer items distractorSet =
     fold (\<lambda>item s. if length s < desiredOptionCount - 1
                      then addCandidate answer s (Some item) else s)
          items distractorSet"

text \<open>The \<open>for ... of\<close> loop of \<open>fillFromAnswers\<close>, with its \<open>break\<close>.\<close>

fun fill_loop :: "string \<Rightarrow> string list \<Rightarrow> string list \<Rightarrow> string list" where
  "fill_loop answer distractorSet [] = distractorSet"
| "fill_loop answer distractorSet (candidate # rest) =
     (if length distractorSet \<ge> desiredOptionCount - 1 then distractorSet
      else fill_loop answer (addCandidate answer distractorSet (Some candidate)) rest)"

definition fillFromAnswers ::
  "string \<Rightarrow> string list \<Rightarrow> string list \<Rightarrow> rng \<Rightarrow> string list \<times> rng" where
  "fillFromAnswers answer distractorSet pool g =
     (if length pool = 0 then (distractorSet, g)
      else let (shuffled, g') = shuffleArray pool g
           in (fill_loop answer distractorSet shuffled, g'))"

text \<open>\<open>Array.prototype.findIndex\<close>; \<open>None\<close> is its result \<open>-1\<close>.\<close>

fun findIndex :: "('a \<Rightarrow> bool) \<Rightarrow> 'a list \<Rightarrow> nat option" where
  "findIndex P [] = None"
| "findIndex P (x # xs) = (if P x then Some 0 else map_option Suc (findIndex P xs))"

definition buildOptions ::
  "FlashcardSource \<Rightarrow> FlashcardSource list \<Rightarrow> FlashcardSource list \<Rightarrow> rng
     \<Rightarrow> (string list \<times> nat) \<times> rng" where
  "buildOptions source categoryPool globalPool g =
     (let (set1, g1) =
            (case src_distractors source of
               None \<Rightarrow> ([], g)
             | Some ds \<Rightarrow>
                 if length ds = 0 then ([], g)
                 else let (shuffled, g') = shuffleArray ds g
                      in (addDistractors (src_answer source) shuffled [], g'));
          categoryAnswers =
            map src_answer (filter (\<lambda>item. src_id item \<noteq> src_id source) categoryPool);
          globalAnswers =
            map src_answer (filter (\<lambda>item. src_id item \<noteq> src_id source) globalPool);
          (set2, g2) =
            (if length set1 < desiredOptionCount - 1
             then fillFromAnswers (src_answer source) set1 categoryAnswers g1
             else (set1, g1));
          (set3, g3) =
            (if length set2 < desiredOptionCount - 1
             then fillFromAnswers (src_answer source) set2 globalAnswers g2
             else (set2, g2));
          combined = src_answer source # take (desiredOptionCount - 1) set3;
          (options, g4) = shuffleArray combined g3;
          answerIndex = findIndex (\<lambda>option. option = src_answer source) options
      in ((options, (case answerIndex of None \<Rightarrow> 0 | Some i \<Rightarrow> i)), g4))"

section \<open>buildDeck\<close>

text \<open>The \<open>map\<close> over the sources; each call of \<open>buildOptions\<close> draws from the random source.\<close>

fun buildCards ::
  "FlashcardSource list \<Rightarrow> FlashcardSource list \<Rightarrow> rng \<Rightarrow> PermitQuestion list \<times> rng" where
  "buildCards [] globalPool g = ([], g)"
| "buildCards (source # rest) globalPool g =
     (let categoryPool = filter (\<lambda>item. src_category item = src_category source) globalPool;
          ((options, answerIndex), g1) = buildOptions source categoryPool globalPool g;
          card = \<lparr> q_id = src_id source, q_prompt = src_prompt source, q_options = options,
                   q_answerIndex = answerIndex, q_answer = src_answer source,
                   q_reference = src_reference source, q_category = src_category source,
                   q_imageUrl = src_imageUrl source \<rparr>;
          (cards, g2) = buildCards rest globalPool g1
      in (card # cards, g2))"

definition buildDeck ::
  "FlashcardSource list \<Rightarrow> FlashcardSource list \<Rightarrow> rng \<Rightarrow> PermitQuestion list \<times> rng" where
  "buildDeck sources globalPool g =
     (if length sources = 0 then ([], g)
      else let (cards, g1) = buildCards sources globalPool g
           in shuffleArray cards g1)"

section \<open>Theme preference\<close>

datatype Theme = Light | Dark

datatype js_error = StorageError | TypeError

text \<open>
  The browser as the program sees it: \<open>localStorage\<close> with its items, which may
  refuse every access (private mode, quota, policy); the answer of
  \<open>matchMedia('(prefers-color-scheme: dark)')\<close>, absent when \<open>matchMedia\<close> is;
  and the class list of the root element, absent when there is no root element.
\<close>

record browser =
  storage_fails :: bool
  storage_items :: "string \<rightharpoonup> string"
  prefers_dark :: "bool option"
  root_classes :: "string list option"

definition getItem :: "string \<Rightarrow> browser \<Rightarrow> js_error + string option" where
  "getItem k b = (if storage_fails b then Inl StorageError else Inr (storage_items b k))"

definition setItem :: "string \<Rightarrow> string \<Rightarrow> browser \<Rightarrow> js_error + browser" where
  "setItem k v b =
     (if storage_fails b then Inl StorageError
      else Inr (b\<lparr>storage_items := (storage_items b)(k \<mapsto> v)\<rparr>))"

definition theme_string :: "Theme \<Rightarrow> string" where
  "theme_string t = (case t of Light \<Rightarrow> ''light'' | Dark \<Rightarrow> ''dark'')"

text \<open>\<open>window\<close> is \<open>None\<close> where \<open>typeof window === 'undefined'\<close>.\<close>

definition getPreferredTheme :: "browser option \<Rightarrow> Theme" where
  "getPreferredTheme window =
     (case window of
        None \<Rightarrow> Light
      | Some b \<Rightarrow>
          (case (case getItem ''pt-theme'' b of
                   Inl e \<Rightarrow> None
                 | Inr stored \<Rightarrow>
                     if stored = Some ''light'' then Some Light
                     else if stored = Some ''dark'' then Some Dark
                     else None) of
             Some t \<Rightarrow> t
           | None \<Rightarrow>
               (case prefers_dark b of
                  Some True \<Rightarrow> Dark
                | _ \<Rightarrow> Light)))"

text \<open>The effect that runs whenever the theme changes; the \<open>catch\<close> drops the error.\<close>

definition themeEffect :: "Theme \<Rightarrow> browser \<Rightarrow> js_error + browser" where
  "themeEffect theme b =
     (case root_classes b of
        None \<Rightarrow> Inr b
      | Some classes \<Rightarrow>
          (let removed = filter (\<lambda>c. c \<noteq> ''theme-light'' \<and> c \<noteq> ''theme-dark'') classes;
               added = removed @ [if theme = Dark then ''theme-dark'' else ''theme-light''];
               b1 = b\<lparr>root_classes := Some added\<rparr>
           in case setItem ''pt-theme'' (theme_string theme) b1 of
                Inl e \<Rightarrow> Inr b1
              | Inr b2 \<Rightarrow> Inr b2))"

section \<open>The session\<close>

datatype Mode = Study | PracticeTest

record session =
  theme :: Theme
  activeCategory :: string
  mode :: Mode
  deck :: "PermitQuestion list"
  currentIndex :: nat
  selectedOption :: "nat option"
  correctCount :: nat
  showSummary :: bool

definition filteredSources :: "FlashcardSource list \<Rightarrow> string \<Rightarrow> FlashcardSource list" where
  "filteredSources allSources category =
     (if category = CATEGORY_ALL then allSources
      else filter (\<lambda>item. src_category item = category) allSources)"

text \<open>\<open>deck[currentIndex]\<close>, which is \<open>undefined\<close> out of range.\<close>

definition currentQuestion :: "session \<Rightarrow> PermitQuestion option" where
  "currentQuestion st =
     (if currentIndex st < length (deck st) then Some (deck st ! currentIndex st) else None)"

text \<open>Reading \<open>answerIndex\<close> of \<open>undefined\<close> throws a \<open>TypeError\<close>.\<close>

definition handleOptionClick :: "nat \<Rightarrow> session \<Rightarrow> js_error + session" where
  "handleOptionClick optionIndex st =
     (if selectedOption st \<noteq> None then Inr st
      else let st1 = st\<lparr>selectedOption := Some optionIndex\<rparr>
           in if mode st = PracticeTest
              then (case currentQuestion st of
                      None \<Rightarrow> Inl TypeError
                    | Some q \<Rightarrow>
                        if optionIndex = q_answerIndex q
                        then Inr (st1\<lparr>correctCount := correctCount st + 1\<rparr>)
                        else Inr st1)
              else Inr st1)"

definition handleNext :: "FlashcardSource list \<Rightarrow> session \<Rightarrow> rng \<Rightarrow> session \<times> rng" where
  "handleNext allSources st g =
     (if currentIndex st + 1 < length (deck st)
      then (st\<lparr>currentIndex := currentIndex st + 1, selectedOption := None\<rparr>, g)
      else if mode st = PracticeTest
      then (st\<lparr>showSummary := True\<rparr>, g)
      else let (d, g') = buildDeck (filteredSources allSources (activeCategory st)) allSources g
           in (st\<lparr>deck := d, currentIndex := 0, selectedOption := None\<rparr>, g'))"

definition startPracticeTest :: "FlashcardSource list \<Rightarrow> session \<Rightarrow> rng \<Rightarrow> session \<times> rng" where
  "startPracticeTest allSources st g =
     (let (shuffled, g1) = shuffleArray allSources g;
          sampleSources = take (min PRACTICE_TEST_SIZE (length allSources)) shuffled;
          (d, g2) = buildDeck sampleSources allSources g1
      in (st\<lparr>mode := PracticeTest, showSummary := False, correctCount := 0, deck := d,
              currentIndex := 0, selectedOption := None\<rparr>, g2))"

definition handleRestart :: "FlashcardSource list \<Rightarrow> session \<Rightarrow> rng \<Rightarrow> session \<times> rng" where
  "handleRestart allSources st g =
     (if mode st = PracticeTest then startPracticeTest allSources st g
      else let (d, g') = buildDeck (filteredSources allSources (activeCategory st)) allSources g
           in (st\<lparr>deck := d, currentIndex := 0, selectedOption := None\<rparr>, g'))"

definition exitPracticeTest :: "session \<Rightarrow> session" where
  "exitPracticeTest st = st\<lparr>mode := Study, showSummary := False, correctCount := 0\<rparr>"

definition toggleTheme :: "session \<Rightarrow> session" where
  "toggleTheme st = st\<lparr>theme := (if theme st = Light then Dark else Light)\<rparr>"

definition handleCategoryChange :: "string \<Rightarrow> session \<Rightarrow> session" where
  "handleCategoryChange v st = st\<lparr>activeCategory := v\<rparr>"


text \<open>
  The state with which \<open>App\<close> starts: the initial values of its \<open>useState\<close> calls.
\<close>

definition initialSession :: "browser option \<Rightarrow> FlashcardSource list \<Rightarrow> rng \<Rightarrow> session \<times> rng" where
  "initialSession window allSources g =
     (let (d, g') = buildDeck allSources allSources g
      in (\<lparr> theme = getPreferredTheme window, activeCategory = CATEGORY_ALL, mode = Study,
             deck = d, currentIndex = 0, selectedOption = None, correctCount = 0,
             showSummary = False \<rparr>, g'))"

text \<open>
  A practice test taken to its end: on each card one click on an option, then the
  \<open>Next\<close> button. The clicks are given as the list of the chosen option indices.
\<close>

fun answerAll ::
  "FlashcardSource list \<Rightarrow> nat list \<Rightarrow> session \<Rightarrow> rng \<Rightarrow> js_error + session \<times> rng" where
  "answerAll allSources [] st g = Inr (st, g)"
| "answerAll allSources (optionIndex # rest) st g =
     (case handleOptionClick optionIndex st of
        Inl e \<Rightarrow> Inl e
      | Inr st1 \<Rightarrow>
          (let (st2, g2) = handleNext allSources st1 g in answerAll allSources rest st2 g2))"

text \<open>The number of clicks that hit the answer index of their card.\<close>

definition correctClicks :: "nat list \<Rightarrow> PermitQuestion list \<Rightarrow> nat" where
  "correctClicks clicks cards =
     length (filter (\<lambda>(optionIndex, q). optionIndex = q_answerIndex q) (zip clicks cards))"

section \<open>Numbers and the summary screen\<close>

text \<open>
  A number of the program is an IEEE 754 binary64 value. The finite ones are modelled as
  the reals they denote, and the result of a division or a multiplication is rounded to
  the nearest real with a significand of 53 bits, ties to even. Overflow and subnormal
  results are left out: they need a magnitude of \<open>2^1024\<close> or more, or less than
  \<open>2^-1022\<close>, and the values here lie between \<open>1/50\<close> and \<open>100\<close>.
  \<open>Math.round\<close> rounds to the nearest integer, ties upwards.
\<close>

definition round_ties_even :: "real \<Rightarrow> int" where
  "round_ties_even x =
     (let f = \<lfloor>x\<rfloor>; d = x - of_int f
      in if d < 1 / 2 then f else if 1 / 2 < d then f + 1
         else if even f then f else f + 1)"

definition binary64 :: "real \<Rightarrow> real" where
  "binary64 x =
     (if x = 0 then 0
      else let e = \<lfloor>log 2 \<bar>x\<bar>\<rfloor>; ulp = 2 powr (of_int e - 52)
           in ulp * of_int (round_ties_even (x / ulp)))"

definition number_div :: "real \<Rightarrow> real \<Rightarrow> real" where
  "number_div a b = binary64 (a / b)"

definition number_mul :: "real \<Rightarrow> real \<Rightarrow> real" where
  "number_mul a b = binary64 (a * b)"

definition Math_round :: "real \<Rightarrow> int" where
  "Math_round x = \<lfloor>x + 1 / 2\<rfloor>"

text \<open>
  What \<open>App\<close> renders: the empty-deck page, the summary of a practice test with the
  values it shows, or the current question.
\<close>

record summary =
  sum_scorePercent :: int
  sum_passed :: bool
  sum_correct :: nat
  sum_incorrect :: int
  sum_total :: nat

datatype view = EmptyDeckView | SummaryView summary | QuestionView

definition render :: "session \<Rightarrow> view" where
  "render st =
     (if length (deck st) = 0 then EmptyDeckView
      else if mode st = PracticeTest \<and> showSummary st
      then (let totalQuestions = (if length (deck st) = 0 then 1 else length (deck st));
                scorePercent =
                  Math_round (number_mul
                    (number_div (real (correctCount st)) (real totalQuestions)) 100);
                passed = (scorePercent \<ge> 80)
            in SummaryView \<lparr> sum_scorePercent = scorePercent, sum_passed = passed,
                 sum_correct = correctCount st,
                 sum_incorrect = int totalQuestions - int (correctCount st),
                 sum_total = totalQuestions \<rparr>)
      else QuestionView)"

section \<open>Notions of the specification\<close>

text \<open>The trim/case-fold rule: two strings are the same when their keys are.\<close>

definition ci_key :: "string \<Rightarrow> string" where
  "ci_key s = toLowerCase (trim s)"

text \<open>
  The other distinct answers the bank supplies for a source: the answers of the records
  with another identifier, as keys, without the key of the source's answer, each once.
\<close>

definition otherAnswerKeys :: "FlashcardSource \<Rightarrow> FlashcardSource list \<Rightarrow> string list" where
  "otherAnswerKeys source globalPool =
     remdups (filter (\<lambda>k. k \<noteq> ci_key (src_answer source))
       (map (\<lambda>item. ci_key (src_answer item))
         (filter (\<lambda>item. src_id item \<noteq> src_id source) globalPool)))"

text \<open>The distractor set of \<open>buildOptions\<close> when \<open>combined\<close> is formed.\<close>

definition collectDistractors ::
  "FlashcardSource \<Rightarrow> FlashcardSource list \<Rightarrow> FlashcardSource list \<Rightarrow> rng
     \<Rightarrow> string list \<times> rng" where
  "collectDistractors source categoryPool globalPool g =
     (let (set1, g1) =
            (case src_distractors source of
               None \<Rightarrow> ([], g)
             | Some ds \<Rightarrow>
                 if length ds = 0 then ([], g)
                 else let (shuffled, g') = shuffleArray ds g
                      in (addDistractors (src_answer source) shuffled [], g'));
          categoryAnswers =
            map src_answer (filter (\<lambda>item. src_id item \<noteq> src_id source) categoryPool);
          globalAnswers =
            map src_answer (filter (\<lambda>item. src_id item \<noteq> src_id source) globalPool);
          (set2, g2) =
            (if length set1 < desiredOptionCount - 1
             then fillFromAnswers (src_answer source) set1 categoryAnswers g1
             else (set1, g1))
      in (if length set2 < desiredOptionCount - 1
          then fillFromAnswers (src_answer source) set2 globalAnswers g2
          else (set2, g2)))"

text \<open>
  The invariant of a card: no two options are the same string once trimmed, the answer
  index is in range and holds the answer, and the option there is the only one that the
  trim/case-fold rule identifies with the answer.
\<close>

definition option_invariant :: "string list \<Rightarrow> nat \<Rightarrow> string \<Rightarrow> bool" where
  "option_invariant options answerIndex answer =
     (distinct (map trim options) \<and> answerIndex < length options \<and>
      options ! answerIndex = answer \<and>
      (\<forall>i \<in> set [0..<length options].
         (ci_key (options ! i) = ci_key answer) = (i = answerIndex)))"

section \<open>Example records\<close>

definition example_source :: "string \<Rightarrow> string \<Rightarrow> string list option \<Rightarrow> FlashcardSource" where
  "example_source i a ds =
     \<lparr> src_id = i, src_prompt = ''Which sign is this?'', src_answer = a, src_distractors = ds,
       src_reference = ''Driver Handbook'', src_category = ''Signs'', src_imageUrl = None \<rparr>"

definition example_bank :: "FlashcardSource list" where
  "example_bank =
     [example_source ''A'' ''Yield'' None, example_source ''B'' ''Stop'' None,
      example_source ''C'' ''Merge'' None, example_source ''D'' ''Speed Limit'' None]"

definition duplicate_bank :: "FlashcardSource list" where
  "duplicate_bank =
     [example_source ''A'' ''Yield'' None, example_source ''B'' ''Stop'' None,
      example_source ''C'' ''stop'' None, example_source ''D'' ''Merge'' None,
      example_source ''E'' ''Speed Limit'' None]"

definition blank_bank :: "FlashcardSource list" where
  "blank_bank =
     [example_source ''A'' ''Yield'' None, example_source ''B'' ''Stop'' None,
      example_source ''C'' ''Merge'' None, example_source ''D'' '' '' None]"

definition mixed_bank :: "FlashcardSource list" where
  "mixed_bank =
     example_bank @
     [(example_source ''E'' ''25 mph'' None)\<lparr>src_category := ''Speed''\<rparr>,
      (example_source ''F'' ''65 mph'' None)\<lparr>src_category := ''Speed''\<rparr>]"

text \<open>Two random sources for the examples: a constant one and the one that counts up.\<close>

definition constant_rng :: "nat \<Rightarrow> rng" where
  "constant_rng c = (\<lambda>k. c)"

definition counting_rng :: rng where
  "counting_rng = (\<lambda>k. k)"

definition example_session :: session where
  "example_session =
     \<lparr> theme = Light, activeCategory = ''Signs'', mode = PracticeTest,
       deck = fst (buildDeck example_bank example_bank counting_rng),
       currentIndex = 0, selectedOption = None, correctCount = 0, showSummary = False \<rparr>"

definition example_browser :: browser where
  "example_browser =
     \<lparr> storage_fails = False, storage_items = [''pt-theme'' \<mapsto> ''dark''],
       prefers_dark = Some False, root_classes = Some [''theme-light''] \<rparr>"

section \<open>Properties of shuffleArray\<close>

lemma random_below_less: "0 < n \<Longrightarrow> fst (random_below n g) < n"
  by (simp add: random_below_def)

lemma shuffle_loop_mset:
  "i < length draft \<or> i = 0 \<Longrightarrow> mset (fst (shuffle_loop i draft g)) = mset draft"
proof (induction i arbitrary: draft g)
  case 0
  then show ?case by simp
next
  case (Suc i)
  obtain s g' where r: "random_below (Suc i + 1) g = (s, g')"
    by (cases "random_below (Suc i + 1) g")
  from Suc.prems have len: "Suc i < length draft" by simp
  have "s < Suc i + 1"
    using random_below_less [of "Suc i + 1" g] r by simp
  with len have s: "s < length draft" by simp
  let ?d = "draft[Suc i := draft ! s, s := draft ! Suc i]"
  have "mset ?d = mset draft"
    using mset_swap [OF s len] by simp
  moreover have "mset (fst (shuffle_loop i ?d g')) = mset ?d"
    using Suc.IH [of ?d g'] len by simp
  ultimately show ?case
    using r by simp
qed

lemma shuffleArray_mset: "mset (fst (shuffleArray xs g)) = mset xs"
  unfolding shuffleArray_def
  by (rule shuffle_loop_mset) (cases xs; simp)

lemma shuffleArray_length: "length (fst (shuffleArray xs g)) = length xs"
  using shuffleArray_mset [of xs g] by (metis size_mset)

lemma shuffleArray_set: "set (fst (shuffleArray xs g)) = set xs"
  using shuffleArray_mset [of xs g] by (metis set_mset_mset)

lemma shuffleArray_distinct: "distinct (fst (shuffleArray xs g)) = distinct xs"
  using shuffleArray_mset [of xs g] by (metis mset_eq_imp_distinct_iff)

lemma shuffle_loop_st_refines:
  "draft < length h \<Longrightarrow>
   shuffle_loop_st draft i h g =
     (h[draft := fst (shuffle_loop i (h ! draft) g)], snd (shuffle_loop i (h ! draft) g))"
proof (induction i arbitrary: h g)
  case 0
  then show ?case by simp
next
  case (Suc i)
  then show ?case
    by (simp add: split_beta Let_def)
qed

lemma shuffleArray_st_refines:
  "shuffleArray_st input h g =
     ((length h, h @ [fst (shuffleArray (h ! input) g)]), snd (shuffleArray (h ! input) g))"
  by (simp add: shuffleArray_st_def alloc_def shuffle_loop_st_refines shuffleArray_def
      split_beta Let_def)

section \<open>Properties of the string operations and of the distractor set\<close>

lemma trimEnd_prefix: "\<exists>zs. s = trimEnd s @ zs"
proof -
  have "trimEnd s @ rev (takeWhile isWhiteSpace (rev s)) =
        rev (takeWhile isWhiteSpace (rev s) @ dropWhile isWhiteSpace (rev s))"
    by (simp only: trimEnd_def rev_append)
  also have "\<dots> = s"
    by (simp only: takeWhile_dropWhile_id rev_rev_ident)
  finally show ?thesis by metis
qed

lemma trimStart_trim: "trimStart (trim s) = trim s"
proof (cases "trim s = []")
  case True
  then show ?thesis by (simp add: trimStart_def)
next
  case False
  obtain zs where zs: "trimStart s = trim s @ zs"
    using trimEnd_prefix [of "trimStart s"] by (auto simp: trim_def)
  with False have ne: "trimStart s \<noteq> []" by auto
  have "hd (trim s) = hd (trimStart s)"
    using zs False by (metis hd_append2)
  moreover have "\<not> isWhiteSpace (hd (trimStart s))"
    using ne unfolding trimStart_def by (rule hd_dropWhile)
  ultimately have "\<not> isWhiteSpace (hd (trim s))" by simp
  with False show ?thesis
    by (cases "trim s") (simp_all add: trimStart_def)
qed

lemma trimEnd_trim: "trimEnd (trim s) = trim s"
  by (simp add: trim_def trimEnd_def)

lemma trim_idem: "trim (trim s) = trim s"
  using trimStart_trim [of s] trimEnd_trim [of s] by (simp add: trim_def [of "trim s"])

lemma ci_key_trim: "ci_key (trim s) = ci_key s"
  by (simp add: ci_key_def trim_idem)

lemma set_add_set: "set (set_add x s) = insert x (set s)"
  by (auto simp: set_add_def)

lemma set_add_distinct: "distinct s \<Longrightarrow> distinct (set_add x s)"
  by (simp add: set_add_def)

lemma set_add_length: "length (set_add x s) \<le> Suc (length s)"
  by (simp add: set_add_def)

lemma addCandidate_length: "length (addCandidate a s c) \<le> Suc (length s)"
  by (auto simp: addCandidate_def Let_def set_add_length split: option.splits)

lemma addCandidate_distinct: "distinct s \<Longrightarrow> distinct (addCandidate a s c)"
  by (auto simp: addCandidate_def Let_def set_add_distinct split: option.splits)

lemma addCandidate_mono: "set s \<subseteq> set (addCandidate a s c)"
  by (auto simp: addCandidate_def Let_def set_add_set split: option.splits)

lemma addCandidate_member:
  "d \<in> set (addCandidate a s c) \<Longrightarrow>
   d \<in> set s \<or> (d \<noteq> [] \<and> trim d = d \<and> toLowerCase d \<noteq> ci_key a)"
  by (auto simp: addCandidate_def Let_def set_add_set trim_idem ci_key_def
      split: option.splits if_splits)

lemma addCandidate_adds:
  "trim c \<noteq> [] \<Longrightarrow> ci_key c \<noteq> ci_key a \<Longrightarrow> trim c \<in> set (addCandidate a s (Some c))"
  by (auto simp: addCandidate_def Let_def set_add_set ci_key_def trim_def trimEnd_def trimStart_def)

lemma addDistractors_length:
  "length s \<le> 3 \<Longrightarrow> length (addDistractors a items s) \<le> 3"
proof (induction items arbitrary: s)
  case Nil
  then show ?case by (simp add: addDistractors_def)
next
  case (Cons item items)
  let ?s = "if length s < desiredOptionCount - 1 then addCandidate a s (Some item) else s"
  have "length ?s \<le> 3"
    using Cons.prems addCandidate_length [of a s "Some item"]
    by (simp add: desiredOptionCount_def)
  then have "length (addDistractors a items ?s) \<le> 3"
    by (rule Cons.IH)
  then show ?case by (simp add: addDistractors_def)
qed

lemma addDistractors_distinct:
  "distinct s \<Longrightarrow> distinct (addDistractors a items s)"
proof (induction items arbitrary: s)
  case Nil
  then show ?case by (simp add: addDistractors_def)
next
  case (Cons item items)
  let ?s = "if length s < desiredOptionCount - 1 then addCandidate a s (Some item) else s"
  have "distinct ?s"
    using Cons.prems by (simp add: addCandidate_distinct)
  then have "distinct (addDistractors a items ?s)"
    by (rule Cons.IH)
  then show ?case by (simp add: addDistractors_def)
qed

lemma addDistractors_member:
  "d \<in> set (addDistractors a items s) \<Longrightarrow>
   d \<in> set s \<or> (d \<noteq> [] \<and> trim d = d \<and> toLowerCase d \<noteq> ci_key a)"
proof (induction items arbitrary: s)
  case Nil
  then show ?case by (simp add: addDistractors_def)
next
  case (Cons item items)
  let ?s = "if length s < desiredOptionCount - 1 then addCandidate a s (Some item) else s"
  from Cons.prems have "d \<in> set (addDistractors a items ?s)"
    by (simp add: addDistractors_def)
  then have "d \<in> set ?s \<or> (d \<noteq> [] \<and> trim d = d \<and> toLowerCase d \<noteq> ci_key a)"
    by (rule Cons.IH)
  then show ?case
    using addCandidate_member [of d a s "Some item"] by (auto split: if_splits)
qed

lemma fill_loop_length:
  "length s \<le> 3 \<Longrightarrow> length (fill_loop a s cs) \<le> 3"
proof (induction cs arbitrary: s)
  case Nil
  then show ?case by simp
next
  case (Cons c cs)
  show ?case
  proof (cases "length s \<ge> desiredOptionCount - 1")
    case True
    with Cons.prems show ?thesis by simp
  next
    case False
    then have "length (addCandidate a s (Some c)) \<le> 3"
      using addCandidate_length [of a s "Some c"] by (simp add: desiredOptionCount_def)
    then have "length (fill_loop a (addCandidate a s (Some c)) cs) \<le> 3"
      by (rule Cons.IH)
    with False show ?thesis by simp
  qed
qed

lemma fill_loop_distinct:
  "distinct s \<Longrightarrow> distinct (fill_loop a s cs)"
  by (induction cs arbitrary: s) (simp_all add: addCandidate_distinct)

lemma fill_loop_mono: "set s \<subseteq> set (fill_loop a s cs)"
proof (induction cs arbitrary: s)
  case Nil
  then show ?case by simp
next
  case (Cons c cs)
  have "set s \<subseteq> set (addCandidate a s (Some c))"
    by (rule addCandidate_mono)
  also have "\<dots> \<subseteq> set (fill_loop a (addCandidate a s (Some c)) cs)"
    by (rule Cons.IH)
  finally show ?case by simp
qed

lemma fill_loop_member:
  "d \<in> set (fill_loop a s cs) \<Longrightarrow>
   d \<in> set s \<or> (d \<noteq> [] \<and> trim d = d \<and> toLowerCase d \<noteq> ci_key a)"
proof (induction cs arbitrary: s)
  case Nil
  then show ?case by simp
next
  case (Cons c cs)
  show ?case
  proof (cases "length s \<ge> desiredOptionCount - 1")
    case True
    with Cons.prems show ?thesis by simp
  next
    case False
    with Cons.prems have "d \<in> set (fill_loop a (addCandidate a s (Some c)) cs)"
      by simp
    then have "d \<in> set (addCandidate a s (Some c)) \<or>
               (d \<noteq> [] \<and> trim d = d \<and> toLowerCase d \<noteq> ci_key a)"
      by (rule Cons.IH)
    then show ?thesis
      using addCandidate_member [of d a s "Some c"] by auto
  qed
qed

text \<open>
  A loop that ends with fewer than three entries has visited every candidate, so every
  admissible candidate is in the set, trimmed.
\<close>

lemma fill_loop_complete:
  "length (fill_loop a s cs) < 3 \<Longrightarrow> c \<in> set cs \<Longrightarrow> trim c \<noteq> [] \<Longrightarrow>
   ci_key c \<noteq> ci_key a \<Longrightarrow> trim c \<in> set (fill_loop a s cs)"
proof (induction cs arbitrary: s)
  case Nil
  then show ?case by simp
next
  case (Cons x cs)
  show ?case
  proof (cases "length s \<ge> desiredOptionCount - 1")
    case True
    with Cons.prems(1) show ?thesis by (simp add: desiredOptionCount_def)
  next
    case False
    let ?s = "addCandidate a s (Some x)"
    from False have eq: "fill_loop a s (x # cs) = fill_loop a ?s cs" by simp
    show ?thesis
    proof (cases "c = x")
      case True
      then have "trim c \<in> set ?s"
        using Cons.prems(3,4) by (simp add: addCandidate_adds)
      then show ?thesis
        using fill_loop_mono [of ?s a cs] eq by auto
    next
      case False
      with Cons.prems(2) have "c \<in> set cs" by simp
      then show ?thesis
        using Cons.IH [of ?s] Cons.prems(1,3,4) eq by simp
    qed
  qed
qed

lemma fillFromAnswers_length:
  "length s \<le> 3 \<Longrightarrow> length (fst (fillFromAnswers a s pool g)) \<le> 3"
  by (simp add: fillFromAnswers_def split_beta fill_loop_length)

lemma fillFromAnswers_distinct:
  "distinct s \<Longrightarrow> distinct (fst (fillFromAnswers a s pool g))"
  by (simp add: fillFromAnswers_def split_beta fill_loop_distinct)

lemma fillFromAnswers_member:
  "d \<in> set (fst (fillFromAnswers a s pool g)) \<Longrightarrow>
   d \<in> set s \<or> (d \<noteq> [] \<and> trim d = d \<and> toLowerCase d \<noteq> ci_key a)"
  by (cases "pool = []") (auto simp: fillFromAnswers_def split_beta dest: fill_loop_member)

lemma fillFromAnswers_complete:
  assumes "length (fst (fillFromAnswers a s pool g)) < 3" and "c \<in> set pool"
    and "trim c \<noteq> []" and "ci_key c \<noteq> ci_key a"
  shows "trim c \<in> set (fst (fillFromAnswers a s pool g))"
proof -
  from assms(2) have ne: "pool \<noteq> []" by auto
  let ?sh = "fst (shuffleArray pool g)"
  have eq: "fst (fillFromAnswers a s pool g) = fill_loop a s ?sh"
    using ne by (simp add: fillFromAnswers_def split_beta)
  have "c \<in> set ?sh"
    using assms(2) by (simp add: shuffleArray_set)
  with assms(1,3,4) show ?thesis
    unfolding eq by (simp add: fill_loop_complete)
qed

text \<open>
  The distractor set when \<open>combined\<close> is formed: what holds of the empty set and is
  kept by the three filling steps holds of it.
\<close>

lemma collectDistractors_invariant:
  assumes empty: "P []"
    and curated: "\<And>items s. P s \<Longrightarrow> P (addDistractors (src_answer source) items s)"
    and fill: "\<And>s pool g'. P s \<Longrightarrow> P (fst (fillFromAnswers (src_answer source) s pool g'))"
  shows "P (fst (collectDistractors source cp gp g))"
  unfolding collectDistractors_def
  by (auto simp: split_beta Let_def split: option.splits intro!: fill curated empty)

lemma collectDistractors_length:
  "length (fst (collectDistractors source cp gp g)) \<le> 3"
  by (rule collectDistractors_invariant)
     (simp_all add: addDistractors_length fillFromAnswers_length)

lemma collectDistractors_distinct:
  "distinct (fst (collectDistractors source cp gp g))"
  by (rule collectDistractors_invariant)
     (simp_all add: addDistractors_distinct fillFromAnswers_distinct)

lemma collectDistractors_member:
  assumes "d \<in> set (fst (collectDistractors source cp gp g))"
  shows "d \<noteq> [] \<and> trim d = d \<and> toLowerCase d \<noteq> ci_key (src_answer source)"
proof -
  let ?ok = "\<lambda>d. d \<noteq> [] \<and> trim d = d \<and> toLowerCase d \<noteq> ci_key (src_answer source)"
  have "\<forall>d \<in> set (fst (collectDistractors source cp gp g)). ?ok d"
  proof (rule collectDistractors_invariant)
    show "\<forall>d \<in> set []. ?ok d" by simp
  next
    fix items s
    assume "\<forall>d \<in> set s. ?ok d"
    then show "\<forall>d \<in> set (addDistractors (src_answer source) items s). ?ok d"
      using addDistractors_member by blast
  next
    fix s pool g'
    assume "\<forall>d \<in> set s. ?ok d"
    then show "\<forall>d \<in> set (fst (fillFromAnswers (src_answer source) s pool g')). ?ok d"
      using fillFromAnswers_member by blast
  qed
  with assms show ?thesis by blast
qed

lemma collectDistractors_complete:
  assumes "length (fst (collectDistractors source cp gp g)) < 3"
    and "item \<in> set gp" and "src_id item \<noteq> src_id source"
    and "trim (src_answer item) \<noteq> []" and "ci_key (src_answer item) \<noteq> ci_key (src_answer source)"
  shows "trim (src_answer item) \<in> set (fst (collectDistractors source cp gp g))"
proof -
  let ?a = "src_answer source"
  let ?globalAnswers = "map src_answer (filter (\<lambda>item. src_id item \<noteq> src_id source) gp)"
  obtain set2 g2 where c:
    "fst (collectDistractors source cp gp g) =
       fst (if length set2 < desiredOptionCount - 1
            then fillFromAnswers ?a set2 ?globalAnswers g2
            else (set2, g2))"
    unfolding collectDistractors_def by (simp add: split_beta Let_def)
  have lt: "length set2 < desiredOptionCount - 1"
    using assms(1) c by (auto simp: desiredOptionCount_def split: if_splits)
  then have eq: "fst (collectDistractors source cp gp g) =
                   fst (fillFromAnswers ?a set2 ?globalAnswers g2)"
    using c by simp
  have "src_answer item \<in> set ?globalAnswers"
    using assms(2,3) by auto
  then show ?thesis
    using assms(1,4,5) unfolding eq by (intro fillFromAnswers_complete)
qed

lemma buildOptions_collect:
  "buildOptions source cp gp g =
     (let (set3, g3) = collectDistractors source cp gp g;
          (options, g4) = shuffleArray (src_answer source # take (desiredOptionCount - 1) set3) g3
      in ((options,
           (case findIndex (\<lambda>option. option = src_answer source) options of
              None \<Rightarrow> 0 | Some i \<Rightarrow> i)), g4))"
  unfolding buildOptions_def collectDistractors_def
  by (simp add: split_beta Let_def)

section \<open>Properties of buildOptions\<close>

lemma findIndex_member:
  "x \<in> set xs \<Longrightarrow>
   \<exists>i. findIndex (\<lambda>option. option = x) xs = Some i \<and> i < length xs \<and> xs ! i = x"
  by (induction xs) auto

lemma buildOptions_options:
  "mset (fst (fst (buildOptions source cp gp g))) =
     add_mset (src_answer source) (mset (fst (collectDistractors source cp gp g)))"
proof -
  have "take (desiredOptionCount - 1) (fst (collectDistractors source cp gp g)) =
        fst (collectDistractors source cp gp g)"
    using collectDistractors_length [of source cp gp g]
    by (simp add: desiredOptionCount_def)
  then show ?thesis
    by (simp add: buildOptions_collect split_beta Let_def shuffleArray_mset)
qed

lemma buildOptions_answerIndex:
  "snd (fst (buildOptions source cp gp g)) < length (fst (fst (buildOptions source cp gp g))) \<and>
   fst (fst (buildOptions source cp gp g)) ! snd (fst (buildOptions source cp gp g)) =
     src_answer source"
proof -
  define opts where "opts = fst (fst (buildOptions source cp gp g))"
  define ai where "ai = snd (fst (buildOptions source cp gp g))"
  have "set_mset (mset opts) = set_mset (add_mset (src_answer source)
          (mset (fst (collectDistractors source cp gp g))))"
    unfolding opts_def by (simp only: buildOptions_options)
  then have "src_answer source \<in> set opts" by simp
  from findIndex_member [OF this] obtain i
    where i: "findIndex (\<lambda>option. option = src_answer source) opts = Some i"
      and less: "i < length opts" and nth: "opts ! i = src_answer source"
    by (elim exE conjE)
  have "ai = (case findIndex (\<lambda>option. option = src_answer source) opts of
                None \<Rightarrow> 0 | Some i \<Rightarrow> i)"
    unfolding ai_def opts_def buildOptions_collect [of source cp gp g]
    by (simp only: split_beta Let_def fst_conv snd_conv)
  then have "ai = i"
    by (simp only: i option.case)
  with less nth show ?thesis
    unfolding opts_def ai_def by (simp only:)
qed

lemma buildOptions_length:
  "1 \<le> length (fst (fst (buildOptions source cp gp g))) \<and>
   length (fst (fst (buildOptions source cp gp g))) \<le> 4"
proof -
  have "size (mset (fst (fst (buildOptions source cp gp g)))) =
        Suc (length (fst (collectDistractors source cp gp g)))"
    by (simp only: buildOptions_options size_add_mset size_mset)
  then show ?thesis
    using collectDistractors_length [of source cp gp g] by simp
qed

lemma distractor_key:
  assumes "d \<in> set (fst (collectDistractors source cp gp g))"
  shows "ci_key d \<noteq> ci_key (src_answer source)" and "trim d \<noteq> trim (src_answer source)"
proof -
  from collectDistractors_member [OF assms]
  have t: "trim d = d" and k: "toLowerCase d \<noteq> ci_key (src_answer source)" by simp_all
  from t k show "ci_key d \<noteq> ci_key (src_answer source)"
    by (simp add: ci_key_def)
  then show "trim d \<noteq> trim (src_answer source)"
    by (auto simp: ci_key_def)
qed

lemma buildOptions_invariant:
  "option_invariant (fst (fst (buildOptions source cp gp g)))
     (snd (fst (buildOptions source cp gp g))) (src_answer source)"
proof -
  let ?opts = "fst (fst (buildOptions source cp gp g))"
  let ?ai = "snd (fst (buildOptions source cp gp g))"
  let ?a = "src_answer source"
  let ?ds = "fst (collectDistractors source cp gp g)"
  have m: "mset ?opts = mset (?a # ?ds)"
    by (simp add: buildOptions_options)
  have "trim d = d" if "d \<in> set ?ds" for d
    using collectDistractors_member [OF that] by simp
  then have tds: "map trim ?ds = ?ds"
    by (rule map_idI)
  have "trim ?a \<notin> set ?ds"
  proof
    assume "trim ?a \<in> set ?ds"
    then have "trim (trim ?a) \<noteq> trim ?a"
      by (rule distractor_key(2))
    then show False
      by (simp add: trim_idem)
  qed
  then have "distinct (map trim (?a # ?ds))"
    using collectDistractors_distinct [of source cp gp g] by (simp add: tds)
  moreover have "mset (map trim ?opts) = mset (map trim (?a # ?ds))"
    using arg_cong [OF m, of "image_mset trim"] by (simp only: mset_map)
  ultimately have dt: "distinct (map trim ?opts)"
    using mset_eq_imp_distinct_iff [of "map trim ?opts" "map trim (?a # ?ds)"] by simp
  then have d: "distinct ?opts"
    by (simp add: distinct_map)
  have ai: "?ai < length ?opts" "?opts ! ?ai = ?a"
    using buildOptions_answerIndex [of source cp gp g] by simp_all
  have "(ci_key (?opts ! i) = ci_key ?a) = (i = ?ai)" if "i < length ?opts" for i
  proof
    assume eq: "ci_key (?opts ! i) = ci_key ?a"
    have "set ?opts = set (?a # ?ds)"
      using m by (rule mset_eq_setD)
    with that have "?opts ! i \<in> set (?a # ?ds)"
      using nth_mem [of i ?opts] by simp
    have "?opts ! i = ?a"
    proof (rule ccontr)
      assume "?opts ! i \<noteq> ?a"
      with \<open>?opts ! i \<in> set (?a # ?ds)\<close> have "?opts ! i \<in> set ?ds" by simp
      then have "ci_key (?opts ! i) \<noteq> ci_key ?a"
        by (rule distractor_key(1))
      with eq show False by simp
    qed
    then show "i = ?ai"
      using nth_eq_iff_index_eq [OF d that ai(1)] ai(2) by simp
  next
    assume "i = ?ai"
    with ai show "ci_key (?opts ! i) = ci_key ?a" by simp
  qed
  with dt ai show ?thesis
    by (simp add: option_invariant_def)
qed

lemma buildOptions_full:
  assumes "3 \<le> length (filter (\<lambda>k. k \<noteq> []) (otherAnswerKeys source gp))"
  shows "length (fst (fst (buildOptions source cp gp g))) = 4"
proof -
  let ?ds = "fst (collectDistractors source cp gp g)"
  let ?ks = "filter (\<lambda>k. k \<noteq> []) (otherAnswerKeys source gp)"
  have "\<not> length ?ds < 3"
  proof
    assume lt: "length ?ds < 3"
    have "set ?ks \<subseteq> toLowerCase ` set ?ds"
    proof
      fix k
      assume "k \<in> set ?ks"
      then have k: "k \<in> set (map (\<lambda>item. ci_key (src_answer item))
                 (filter (\<lambda>item. src_id item \<noteq> src_id source) gp))"
        "k \<noteq> []" "k \<noteq> ci_key (src_answer source)"
        by (simp_all add: otherAnswerKeys_def)
      from k(1) obtain item where item: "item \<in> set gp" "src_id item \<noteq> src_id source"
        "k = ci_key (src_answer item)"
        by auto
      from item(3) k(2) have ne: "trim (src_answer item) \<noteq> []"
        by (auto simp: ci_key_def toLowerCase_def)
      from item(3) k(3) have "ci_key (src_answer item) \<noteq> ci_key (src_answer source)"
        by simp
      with lt item(1,2) ne have "trim (src_answer item) \<in> set ?ds"
        by (rule collectDistractors_complete)
      then show "k \<in> toLowerCase ` set ?ds"
        using item(3) by (auto simp: ci_key_def)
    qed
    then have "card (set ?ks) \<le> card (toLowerCase ` set ?ds)"
      by (intro card_mono) simp_all
    also have "\<dots> \<le> card (set ?ds)"
      by (rule card_image_le) simp
    also have "\<dots> \<le> length ?ds"
      by (rule card_length)
    finally have "card (set ?ks) < 3"
      using lt by simp
    moreover have "distinct ?ks"
      by (simp add: otherAnswerKeys_def)
    then have "card (set ?ks) = length ?ks"
      by (rule distinct_card)
    ultimately show False
      using assms by simp
  qed
  with collectDistractors_length [of source cp gp g] have "length ?ds = 3" by simp
  moreover have "size (mset (fst (fst (buildOptions source cp gp g)))) = Suc (length ?ds)"
    by (simp only: buildOptions_options size_add_mset size_mset)
  ultimately show ?thesis by simp
qed

section \<open>Properties of buildDeck\<close>

lemma buildCards_ids: "map q_id (fst (buildCards sources gp g)) = map src_id sources"
  by (induction sources arbitrary: g) (simp_all add: split_beta Let_def)

lemma buildCards_invariant:
  "c \<in> set (fst (buildCards sources gp g)) \<Longrightarrow>
   option_invariant (q_options c) (q_answerIndex c) (q_answer c)"
proof (induction sources arbitrary: g)
  case Nil
  then show ?case by simp
next
  case (Cons source rest)
  let ?cp = "filter (\<lambda>item. src_category item = src_category source) gp"
  let ?r = "buildOptions source ?cp gp g"
  from Cons.prems have
    "(q_options c = fst (fst ?r) \<and> q_answerIndex c = snd (fst ?r) \<and>
      q_answer c = src_answer source) \<or>
     c \<in> set (fst (buildCards rest gp (snd ?r)))"
    by (auto simp: split_beta Let_def)
  then show ?case
  proof
    assume "q_options c = fst (fst ?r) \<and> q_answerIndex c = snd (fst ?r) \<and>
      q_answer c = src_answer source"
    then show ?thesis
      using buildOptions_invariant [of source ?cp gp g] by simp
  next
    assume "c \<in> set (fst (buildCards rest gp (snd ?r)))"
    then show ?thesis by (rule Cons.IH)
  qed
qed

lemma buildDeck_mset:
  "mset (fst (buildDeck sources gp g)) = mset (fst (buildCards sources gp g))"
  by (cases sources) (simp_all add: buildDeck_def split_beta shuffleArray_mset)

section \<open>The claims about shuffleArray, buildOptions and buildDeck\<close>

text \<open>
  C10. \<open>shuffleArray\<close> returns a new array that is a permutation of the input array
  (same length, same multiset of elements), and every array that existed before the
  call, the input among them, is unchanged after it.
\<close>

theorem shuffleArray_permutes_a_copy:
  assumes "input < length h"
  shows "case shuffleArray_st input h g of
           ((result, h'), g') \<Rightarrow>
             result = length h \<and> length h' = Suc (length h) \<and>
             (\<forall>r < length h. h' ! r = h ! r) \<and>
             mset (h' ! result) = mset (h ! input) \<and>
             length (h' ! result) = length (h ! input)"
  by (simp add: shuffleArray_st_refines nth_append shuffleArray_mset shuffleArray_length)

theorem shuffleArray_permutes_a_copy_witness:
  "(0::nat) < length [[1, 2, 3 :: nat]] \<and>
   fst (shuffleArray_st 0 [[1, 2, 3 :: nat]] counting_rng) = (1, [[1, 2, 3], [3, 2, 1]]) \<and>
   (case shuffleArray_st 0 [[1, 2, 3 :: nat]] counting_rng of
      ((result, h'), g') \<Rightarrow>
        result = length [[1, 2, 3 :: nat]] \<and> length h' = Suc (length [[1, 2, 3 :: nat]]) \<and>
        (\<forall>r < length [[1, 2, 3 :: nat]]. h' ! r = [[1, 2, 3 :: nat]] ! r) \<and>
        mset (h' ! result) = mset ([[1, 2, 3 :: nat]] ! 0) \<and>
        length (h' ! result) = length ([[1, 2, 3 :: nat]] ! 0))"
proof -
  have h: "(0::nat) < length [[1, 2, 3 :: nat]]" by simp
  have e: "fst (shuffleArray_st 0 [[1, 2, 3 :: nat]] counting_rng) = (1, [[1, 2, 3], [3, 2, 1]])"
    by code_simp
  from h e shuffleArray_permutes_a_copy [OF h, of counting_rng] show ?thesis
    by (intro conjI)
qed

text \<open>
  C4. \<open>buildOptions\<close> has no failing path: for every source, pools and random source
  it returns between 1 and 4 options, the answer among them, and an answer index that is
  in range and holds the answer.
\<close>

theorem buildOptions_never_fails:
  "case buildOptions source categoryPool globalPool g of
     ((options, answerIndex), g') \<Rightarrow>
       1 \<le> length options \<and> length options \<le> 4 \<and> src_answer source \<in> set options \<and>
       answerIndex < length options \<and> options ! answerIndex = src_answer source"
proof -
  let ?opts = "fst (fst (buildOptions source categoryPool globalPool g))"
  let ?ai = "snd (fst (buildOptions source categoryPool globalPool g))"
  have "?ai < length ?opts" and "?opts ! ?ai = src_answer source"
    using buildOptions_answerIndex [of source categoryPool globalPool g] by simp_all
  moreover from this have "src_answer source \<in> set ?opts"
    using nth_mem [of ?ai ?opts] by simp
  moreover have "1 \<le> length ?opts" and "length ?opts \<le> 4"
    using buildOptions_length [of source categoryPool globalPool g] by simp_all
  ultimately show ?thesis
    by (simp add: split_beta)
qed

theorem buildOptions_never_fails_witness:
  "fst (buildOptions (example_source ''A'' ''Yield'' None) [] [] (constant_rng 0)) = ([''Yield''], 0) \<and>
   (case buildOptions (example_source ''A'' ''Yield'' None) [] [] (constant_rng 0) of
     ((options, answerIndex), g') \<Rightarrow>
       1 \<le> length options \<and> length options \<le> 4 \<and>
       src_answer (example_source ''A'' ''Yield'' None) \<in> set options \<and>
       answerIndex < length options \<and>
       options ! answerIndex = src_answer (example_source ''A'' ''Yield'' None))"
proof -
  have "fst (buildOptions (example_source ''A'' ''Yield'' None) [] [] (constant_rng 0)) = ([''Yield''], 0)"
    by code_simp
  with buildOptions_never_fails [of "example_source ''A'' ''Yield'' None" "[]" "[]" "constant_rng 0"]
  show ?thesis by (intro conjI)
qed

text \<open>
  C3. The deck that \<open>buildDeck\<close> returns has as many cards as there are sources, and
  the card identifiers are the source identifiers, with the same multiplicities; for no
  sources the deck is empty.
\<close>

theorem buildDeck_length_and_identifiers:
  "length (fst (buildDeck sources globalPool g)) = length sources \<and>
   mset (map q_id (fst (buildDeck sources globalPool g))) = mset (map src_id sources) \<and>
   fst (buildDeck [] globalPool g) = []"
proof -
  have m: "mset (fst (buildDeck sources globalPool g)) = mset (fst (buildCards sources globalPool g))"
    by (rule buildDeck_mset)
  have "mset (map q_id (fst (buildDeck sources globalPool g))) =
        mset (map q_id (fst (buildCards sources globalPool g)))"
    using arg_cong [OF m, of "image_mset q_id"] by (simp only: mset_map)
  then have ids: "mset (map q_id (fst (buildDeck sources globalPool g))) = mset (map src_id sources)"
    by (simp only: buildCards_ids)
  have "size (mset (map q_id (fst (buildDeck sources globalPool g)))) =
        size (mset (map src_id sources))"
    by (simp only: ids)
  then have "length (fst (buildDeck sources globalPool g)) = length sources"
    by simp
  with ids show ?thesis
    by (simp add: buildDeck_def)
qed

theorem buildDeck_length_and_identifiers_witness:
  "map q_id (fst (buildDeck example_bank example_bank counting_rng)) = [''B'', ''C'', ''D'', ''A''] \<and>
   length (fst (buildDeck example_bank example_bank counting_rng)) = length example_bank \<and>
   mset (map q_id (fst (buildDeck example_bank example_bank counting_rng))) =
     mset (map src_id example_bank)"
proof -
  have "map q_id (fst (buildDeck example_bank example_bank counting_rng)) = [''B'', ''C'', ''D'', ''A'']"
    by code_simp
  with buildDeck_length_and_identifiers [of example_bank example_bank counting_rng]
  show ?thesis by (intro conjI) simp_all
qed

text \<open>
  What the code keeps of the card invariant, for every result of \<open>buildOptions\<close> and
  for every card of a deck built by \<open>buildDeck\<close>: no two options are the same string
  once trimmed, exactly one option equals the answer under the trim/case-fold rule, and
  the answer index points at it.
\<close>

lemma card_invariant:
  "(case buildOptions source categoryPool globalPool g of
      ((options, answerIndex), g') \<Rightarrow> option_invariant options answerIndex (src_answer source)) \<and>
   (\<forall>c \<in> set (fst (buildDeck sources bank r)).
      option_invariant (q_options c) (q_answerIndex c) (q_answer c))"
proof
  show "case buildOptions source categoryPool globalPool g of
      ((options, answerIndex), g') \<Rightarrow> option_invariant options answerIndex (src_answer source)"
    using buildOptions_invariant [of source categoryPool globalPool g]
    by (simp add: split_beta)
next
  have "set (fst (buildDeck sources bank r)) = set (fst (buildCards sources bank r))"
    using buildDeck_mset [of sources bank r] by (rule mset_eq_setD)
  then show "\<forall>c \<in> set (fst (buildDeck sources bank r)).
      option_invariant (q_options c) (q_answerIndex c) (q_answer c)"
    using buildCards_invariant by blast
qed

text \<open>
  C1. The options of a card are to hold no two strings that the trim/case-fold rule
  identifies. \<open>addCandidate\<close> folds case where it compares a candidate with the
  answer, but adds the trimmed candidate to a set that compares strings as they are. For
  the source below, with the curated distractors \<open>Stop\<close> and \<open>stop\<close>, both are
  kept, and the options hold two strings with one key.
\<close>

theorem card_options_share_a_key:
  "fst (buildOptions (example_source ''A'' ''Yield'' (Some [''Stop'', ''stop''])) [] []
     (constant_rng 0)) = ([''stop'', ''Stop'', ''Yield''], 2) \<and>
   ci_key ''stop'' = ci_key ''Stop'' \<and>
   \<not> distinct (map ci_key (fst (fst
     (buildOptions (example_source ''A'' ''Yield'' (Some [''Stop'', ''stop''])) [] []
       (constant_rng 0)))))"
  by code_simp

text \<open>
  With three other answers in the bank that are not blank and differ from each other and
  from the answer of the source under the trim/case-fold rule, \<open>buildOptions\<close>
  returns exactly four options, with what the code keeps of the card invariant.
\<close>

lemma buildOptions_four_options:
  assumes "3 \<le> length (filter (\<lambda>k. k \<noteq> []) (otherAnswerKeys source globalPool))"
  shows "case buildOptions source categoryPool globalPool g of
           ((options, answerIndex), g') \<Rightarrow>
             length options = 4 \<and> option_invariant options answerIndex (src_answer source)"
  using buildOptions_full [OF assms, of categoryPool g]
    buildOptions_invariant [of source categoryPool globalPool g]
  by (simp add: split_beta)

text \<open>
  C2. With three other distinct answers in the bank, the four options are to be distinct
  under the trim/case-fold rule. The bank below supplies three, and the four options
  returned hold both \<open>Stop\<close> and \<open>stop\<close>: the set of \<open>buildOptions\<close> compares
  the answers it draws as strings, case included.
\<close>

theorem buildOptions_four_with_shared_key:
  "3 \<le> length (otherAnswerKeys (example_source ''A'' ''Yield'' None) duplicate_bank) \<and>
   fst (buildOptions (example_source ''A'' ''Yield'' None) duplicate_bank duplicate_bank
     (constant_rng 2)) = ([''stop'', ''Yield'', ''Speed Limit'', ''Stop''], 1) \<and>
   \<not> distinct (map ci_key (fst (fst
     (buildOptions (example_source ''A'' ''Yield'' None) duplicate_bank duplicate_bank
       (constant_rng 2)))))"
  by code_simp

text \<open>
  An answer of white space only is skipped by \<open>addCandidate\<close>, so it does not count
  towards the four options.
\<close>

lemma blank_answer_is_skipped:
  "otherAnswerKeys (example_source ''A'' ''Yield'' None) blank_bank = [''stop'', ''merge'', []] \<and>
   fst (buildOptions (example_source ''A'' ''Yield'' None) blank_bank blank_bank counting_rng) =
     ([''Yield'', ''Stop'', ''Merge''], 0)"
  by code_simp

section \<open>The claims about the session\<close>


lemma buildDeck_ids:
  "mset (map q_id (fst (buildDeck sources bank g))) = mset (map src_id sources)"
proof -
  have "mset (map q_id (fst (buildDeck sources bank g))) =
        mset (map q_id (fst (buildCards sources bank g)))"
    using arg_cong [OF buildDeck_mset [of sources bank g], of "image_mset q_id"]
    by (simp only: mset_map)
  then show ?thesis
    by (simp only: buildCards_ids)
qed

lemma buildDeck_length: "length (fst (buildDeck sources bank g)) = length sources"
  using arg_cong [OF buildDeck_ids [of sources bank g], of size] by simp



text \<open>
  C7. On a card without a selection, a click on option \<open>i\<close> records \<open>i\<close> as the
  selection and adds one to the correct-count exactly when the mode is practice test and
  \<open>i\<close> is the answer index of the card; nothing else changes. A further click on any
  option then changes nothing.
\<close>

theorem handleOptionClick_answers_once:
  assumes "selectedOption st = None" and "currentIndex st < length (deck st)"
  shows "handleOptionClick i st =
           Inr (st\<lparr>selectedOption := Some i,
                   correctCount :=
                     (if mode st = PracticeTest \<and> i = q_answerIndex (deck st ! currentIndex st)
                      then correctCount st + 1 else correctCount st)\<rparr>) \<and>
         (\<forall>st'. handleOptionClick i st = Inr st' \<longrightarrow> handleOptionClick j st' = Inr st')"
  using assms
  by (auto simp: handleOptionClick_def currentQuestion_def Let_def)

theorem handleOptionClick_answers_once_witness:
  "selectedOption example_session = None \<and>
   currentIndex example_session < length (deck example_session) \<and>
   q_answerIndex (deck example_session ! currentIndex example_session) = 0 \<and>
   handleOptionClick 0 example_session =
     Inr (example_session\<lparr>selectedOption := Some 0, correctCount := 1\<rparr>) \<and>
   handleOptionClick 2 (example_session\<lparr>selectedOption := Some 0, correctCount := 1\<rparr>) =
     Inr (example_session\<lparr>selectedOption := Some 0, correctCount := 1\<rparr>)"
proof -
  have h1: "selectedOption example_session = None"
    by (simp add: example_session_def)
  have h2: "currentIndex example_session < length (deck example_session)"
    by (simp add: example_session_def buildDeck_length example_bank_def)
  have a: "q_answerIndex (deck example_session ! currentIndex example_session) = 0"
    by code_simp
  have m: "mode example_session = PracticeTest" "correctCount example_session = 0"
    by (simp_all add: example_session_def)
  from handleOptionClick_answers_once [OF h1 h2, where i = 0 and j = 2] h1 h2 a m
  show ?thesis by simp
qed

lemma buildCards_categories:
  "map q_category (fst (buildCards sources gp g)) = map src_category sources"
  by (induction sources arbitrary: g) (simp_all add: split_beta Let_def)

lemma buildDeck_categories:
  "set (map q_category (fst (buildDeck sources bank g))) = set (map src_category sources)"
proof -
  have "mset (map q_category (fst (buildDeck sources bank g))) =
        mset (map q_category (fst (buildCards sources bank g)))"
    using arg_cong [OF buildDeck_mset [of sources bank g], of "image_mset q_category"]
    by (simp only: mset_map)
  then have "mset (map q_category (fst (buildDeck sources bank g))) =
             mset (map src_category sources)"
    by (simp only: buildCards_categories)
  then show ?thesis
    by (rule mset_eq_setD)
qed

lemma filteredSources_cases:
  "filteredSources allSources category =
     (if category = ''all'' then allSources
      else filter (\<lambda>item. src_category item = category) allSources)"
  by (simp add: filteredSources_def CATEGORY_ALL_def)

lemma buildDeck_filtered_category:
  assumes "category \<noteq> ''all''"
    and "c \<in> set (fst (buildDeck (filteredSources allSources category) allSources g))"
  shows "q_category c = category"
proof -
  let ?fs = "filteredSources allSources category"
  from assms(2) have "q_category c \<in> set (map q_category (fst (buildDeck ?fs allSources g)))"
    by simp
  then have "q_category c \<in> set (map src_category ?fs)"
    by (simp only: buildDeck_categories)
  then obtain s where "s \<in> set ?fs" and "src_category s = q_category c"
    by auto
  with assms(1) show ?thesis
    by (simp add: filteredSources_cases)
qed

text \<open>
  C8. \<open>handleNext\<close>: when another card remains, the position moves to it and the
  selection is cleared. On the last card in study mode, the deck is rebuilt from the
  current filter: its identifiers are those of the whole bank when the active category
  is \<open>all\<close>, and otherwise those of the records of the active category, and then
  every card has that category; the position is the first card and the selection is
  cleared. On the last card in practice-test mode, only the summary flag is set: the deck
  is kept, and a non-empty deck renders as the summary.
\<close>

theorem handleNext_advances_rebuilds_or_summarises:
  "(currentIndex st + 1 < length (deck st) \<longrightarrow>
      handleNext allSources st g =
        (st\<lparr>currentIndex := currentIndex st + 1, selectedOption := None\<rparr>, g)) \<and>
   (\<not> currentIndex st + 1 < length (deck st) \<and> mode st = Study \<longrightarrow>
      (case handleNext allSources st g of
         (st', g') \<Rightarrow>
           (deck st', g') =
             buildDeck (filteredSources allSources (activeCategory st)) allSources g \<and>
           mset (map q_id (deck st')) =
             mset (map src_id (filteredSources allSources (activeCategory st))) \<and>
           mset (map q_id (deck st')) =
             mset (map src_id
               (if activeCategory st = ''all'' then allSources
                else filter (\<lambda>item. src_category item = activeCategory st) allSources)) \<and>
           (activeCategory st \<noteq> ''all'' \<longrightarrow>
              (\<forall>c \<in> set (deck st'). q_category c = activeCategory st)) \<and>
           activeCategory st' = activeCategory st \<and>
           currentIndex st' = 0 \<and> selectedOption st' = None \<and> mode st' = Study \<and>
           showSummary st' = showSummary st)) \<and>
   (\<not> currentIndex st + 1 < length (deck st) \<and> mode st = PracticeTest \<longrightarrow>
      handleNext allSources st g = (st\<lparr>showSummary := True\<rparr>, g) \<and>
      (deck st \<noteq> [] \<longrightarrow> (\<exists>s. render (fst (handleNext allSources st g)) = SummaryView s)))"
proof -
  let ?fs = "filteredSources allSources (activeCategory st)"
  let ?d = "fst (buildDeck ?fs allSources g)"
  have ids: "mset (map q_id ?d) = mset (map src_id ?fs)"
    by (rule buildDeck_ids)
  have ids': "mset (map q_id ?d) =
      mset (map src_id
        (if activeCategory st = ''all'' then allSources
         else filter (\<lambda>item. src_category item = activeCategory st) allSources))"
    using ids by (simp only: filteredSources_cases)
  have cat: "activeCategory st \<noteq> ''all'' \<longrightarrow> (\<forall>c \<in> set ?d. q_category c = activeCategory st)"
    using buildDeck_filtered_category by blast
  have study: "\<not> currentIndex st + 1 < length (deck st) \<Longrightarrow> mode st = Study \<Longrightarrow>
      handleNext allSources st g =
        (st\<lparr>deck := ?d, currentIndex := 0, selectedOption := None\<rparr>,
         snd (buildDeck ?fs allSources g))"
    by (simp add: handleNext_def split_beta)
  have first: "currentIndex st + 1 < length (deck st) \<longrightarrow>
      handleNext allSources st g =
        (st\<lparr>currentIndex := currentIndex st + 1, selectedOption := None\<rparr>, g)"
    by (simp add: handleNext_def)
  have second: "\<not> currentIndex st + 1 < length (deck st) \<and> mode st = Study \<longrightarrow>
      (case handleNext allSources st g of
         (st', g') \<Rightarrow>
           (deck st', g') = buildDeck ?fs allSources g \<and>
           mset (map q_id (deck st')) = mset (map src_id ?fs) \<and>
           mset (map q_id (deck st')) =
             mset (map src_id
               (if activeCategory st = ''all'' then allSources
                else filter (\<lambda>item. src_category item = activeCategory st) allSources)) \<and>
           (activeCategory st \<noteq> ''all'' \<longrightarrow>
              (\<forall>c \<in> set (deck st'). q_category c = activeCategory st)) \<and>
           activeCategory st' = activeCategory st \<and>
           currentIndex st' = 0 \<and> selectedOption st' = None \<and> mode st' = Study \<and>
           showSummary st' = showSummary st)"
  proof (intro impI)
    assume a: "\<not> currentIndex st + 1 < length (deck st) \<and> mode st = Study"
    then have h: "handleNext allSources st g =
        (st\<lparr>deck := ?d, currentIndex := 0, selectedOption := None\<rparr>,
         snd (buildDeck ?fs allSources g))"
      using study by blast
    show "case handleNext allSources st g of
         (st', g') \<Rightarrow>
           (deck st', g') = buildDeck ?fs allSources g \<and>
           mset (map q_id (deck st')) = mset (map src_id ?fs) \<and>
           mset (map q_id (deck st')) =
             mset (map src_id
               (if activeCategory st = ''all'' then allSources
                else filter (\<lambda>item. src_category item = activeCategory st) allSources)) \<and>
           (activeCategory st \<noteq> ''all'' \<longrightarrow>
              (\<forall>c \<in> set (deck st'). q_category c = activeCategory st)) \<and>
           activeCategory st' = activeCategory st \<and>
           currentIndex st' = 0 \<and> selectedOption st' = None \<and> mode st' = Study \<and>
           showSummary st' = showSummary st"
      unfolding h using ids ids' cat a by (simp del: mset_map)
  qed
  have third: "\<not> currentIndex st + 1 < length (deck st) \<and> mode st = PracticeTest \<longrightarrow>
      handleNext allSources st g = (st\<lparr>showSummary := True\<rparr>, g) \<and>
      (deck st \<noteq> [] \<longrightarrow> (\<exists>s. render (fst (handleNext allSources st g)) = SummaryView s))"
    by (simp add: handleNext_def render_def Let_def)
  from first second third show ?thesis
    by (intro conjI)
qed

theorem handleNext_advances_rebuilds_or_summarises_witness:
  "handleNext example_bank example_session counting_rng =
     (example_session\<lparr>currentIndex := 1, selectedOption := None\<rparr>, counting_rng) \<and>
   map q_id (deck (fst (handleNext mixed_bank
     (example_session\<lparr>currentIndex := 3, mode := Study, activeCategory := ''Speed''\<rparr>)
     counting_rng))) = [''F'', ''E''] \<and>
   mset (map q_id (deck (fst (handleNext mixed_bank
     (example_session\<lparr>currentIndex := 3, mode := Study, activeCategory := ''Speed''\<rparr>)
     counting_rng)))) =
     mset (map src_id (filter (\<lambda>item. src_category item = ''Speed'') mixed_bank)) \<and>
   list_all (\<lambda>c. q_category c = ''Speed'') (deck (fst (handleNext mixed_bank
     (example_session\<lparr>currentIndex := 3, mode := Study, activeCategory := ''Speed''\<rparr>)
     counting_rng))) \<and>
   currentIndex (fst (handleNext mixed_bank
     (example_session\<lparr>currentIndex := 3, mode := Study, activeCategory := ''Speed''\<rparr>)
     counting_rng)) = 0 \<and>
   handleNext example_bank (example_session\<lparr>currentIndex := 3\<rparr>) counting_rng =
     (example_session\<lparr>currentIndex := 3, showSummary := True\<rparr>, counting_rng)"
proof -
  let ?study = "example_session\<lparr>currentIndex := 3, mode := Study, activeCategory := ''Speed''\<rparr>"
  let ?last = "example_session\<lparr>currentIndex := 3\<rparr>"
  let ?st' = "fst (handleNext mixed_bank ?study counting_rng)"
  have l: "length (deck example_session) = 4"
    by (simp add: example_session_def buildDeck_length example_bank_def)
  have f: "currentIndex example_session = 0" "mode example_session = PracticeTest"
    by (simp_all add: example_session_def)
  have h1: "currentIndex example_session + 1 < length (deck example_session)"
    using l f by simp
  have h2: "\<not> currentIndex ?study + 1 < length (deck ?study) \<and> mode ?study = Study"
    using l by simp
  have h3: "\<not> currentIndex ?last + 1 < length (deck ?last) \<and> mode ?last = PracticeTest"
    using l f by simp
  have c: "activeCategory ?study = ''Speed''" "activeCategory ?study \<noteq> ''all''"
    by simp_all
  have w1: "handleNext example_bank example_session counting_rng =
     (example_session\<lparr>currentIndex := 1, selectedOption := None\<rparr>, counting_rng)"
    using handleNext_advances_rebuilds_or_summarises
      [where st = example_session and allSources = example_bank and g = counting_rng] h1 f
    by simp
  note r = handleNext_advances_rebuilds_or_summarises
      [where st = ?study and allSources = mixed_bank and g = counting_rng,
       THEN conjunct2, THEN conjunct1, THEN mp, OF h2, unfolded split_beta, THEN conjunct2,
       THEN conjunct2]
  have w2: "mset (map q_id (deck ?st')) =
        mset (map src_id (filter (\<lambda>item. src_category item = ''Speed'') mixed_bank)) \<and>
      (\<forall>c \<in> set (deck ?st'). q_category c = ''Speed'') \<and> currentIndex ?st' = 0"
    using r by (simp del: mset_map)
  have w3: "handleNext example_bank ?last counting_rng =
     (example_session\<lparr>currentIndex := 3, showSummary := True\<rparr>, counting_rng)"
    using handleNext_advances_rebuilds_or_summarises
      [where st = ?last and allSources = example_bank and g = counting_rng] h3
    by simp
  have d: "map q_id (deck ?st') = [''F'', ''E'']"
    by code_simp
  from w2 have w2': "list_all (\<lambda>c. q_category c = ''Speed'') (deck ?st')"
    by (simp add: list_all_iff)
  from w1 d w2 w2' w3 show ?thesis
    by (intro conjI) (simp_all only:)
qed

text \<open>
  C9. The theme at startup is the stored preference when reading it succeeds and gives
  \<open>light\<close> or \<open>dark\<close>; otherwise it is dark when the system signal is present and
  says dark, and light in every other case, also without a window. A failing read gives
  the fallback and a failing write changes nothing in the stored items; neither is an
  error of the program.
\<close>

theorem theme_preference_with_fallbacks:
  "getPreferredTheme None = Light \<and>
   getPreferredTheme (Some b) =
     (if getItem ''pt-theme'' b = Inr (Some ''light'') then Light
      else if getItem ''pt-theme'' b = Inr (Some ''dark'') then Dark
      else if prefers_dark b = Some True then Dark
      else Light) \<and>
   theme (fst (initialSession window allSources g)) = getPreferredTheme window \<and>
   (storage_fails b \<longrightarrow>
      getItem ''pt-theme'' b = Inl StorageError \<and>
      getPreferredTheme (Some b) = (if prefers_dark b = Some True then Dark else Light)) \<and>
   (\<exists>b'. themeEffect t b = Inr b' \<and>
      (storage_fails b \<longrightarrow>
         setItem ''pt-theme'' (theme_string t) b = Inl StorageError \<and>
         storage_items b' = storage_items b \<and> storage_fails b'))"
  by (auto simp: getPreferredTheme_def getItem_def setItem_def themeEffect_def initialSession_def
      split_beta Let_def split: option.splits bool.splits sum.splits)

theorem theme_preference_with_fallbacks_witness:
  "getPreferredTheme (Some example_browser) = Dark \<and>
   getPreferredTheme (Some (example_browser\<lparr>storage_fails := True\<rparr>)) = Light \<and>
   getPreferredTheme
     (Some (example_browser\<lparr>storage_fails := True, prefers_dark := Some True\<rparr>)) = Dark \<and>
   themeEffect Dark (example_browser\<lparr>storage_fails := True\<rparr>) =
     Inr (example_browser\<lparr>storage_fails := True, root_classes := Some [''theme-dark'']\<rparr>)"
proof -
  have s: "storage_fails (example_browser\<lparr>storage_fails := True\<rparr>)"
    "storage_fails (example_browser\<lparr>storage_fails := True, prefers_dark := Some True\<rparr>)"
    by simp_all
  have e: "themeEffect Dark (example_browser\<lparr>storage_fails := True\<rparr>) =
     Inr (example_browser\<lparr>storage_fails := True, root_classes := Some [''theme-dark'']\<rparr>)"
    by (simp add: themeEffect_def setItem_def example_browser_def)
  from theme_preference_with_fallbacks [where b = example_browser]
       theme_preference_with_fallbacks [where b = "example_browser\<lparr>storage_fails := True\<rparr>"]
       theme_preference_with_fallbacks
         [where b = "example_browser\<lparr>storage_fails := True, prefers_dark := Some True\<rparr>"]
       s e
  show ?thesis
    by (simp add: getItem_def example_browser_def)
qed

section \<open>Rounding errors\<close>

lemma round_ties_even_error: "\<bar>of_int (round_ties_even z) - z\<bar> \<le> 1 / 2"
proof -
  have "of_int \<lfloor>z\<rfloor> \<le> z" and "z < of_int \<lfloor>z\<rfloor> + 1"
    by linarith+
  then show ?thesis
    by (auto simp: round_ties_even_def Let_def)
qed

lemma binary64_error:
  assumes "0 < x"
  shows "\<bar>binary64 x - x\<bar> \<le> x / 2 ^ 53"
proof -
  define e where "e = \<lfloor>log 2 x\<rfloor>"
  define u :: real where "u = 2 powr (of_int e - 52)"
  have u_pos: "0 < u"
    by (simp add: u_def)
  have "of_int e \<le> log 2 x"
    by (simp add: e_def)
  then have "2 powr (of_int e) \<le> 2 powr (log 2 x)"
    by (simp only: powr_mono one_le_numeral)
  then have lo: "2 powr (of_int e) \<le> x"
    using assms by simp
  have u_eq: "u = 2 powr (of_int e) / 2 ^ 52"
    by (simp add: u_def powr_diff)
  have b: "binary64 x = u * of_int (round_ties_even (x / u))"
    using assms by (simp add: binary64_def Let_def e_def u_def)
  have "binary64 x - x = u * (of_int (round_ties_even (x / u)) - x / u)"
    using u_pos by (simp add: b right_diff_distrib)
  then have "\<bar>binary64 x - x\<bar> = u * \<bar>of_int (round_ties_even (x / u)) - x / u\<bar>"
    using u_pos by (simp add: abs_mult)
  also have "\<dots> \<le> u * (1 / 2)"
    using u_pos round_ties_even_error [of "x / u"] by (simp only: mult_left_mono less_imp_le)
  also have "\<dots> = 2 powr (of_int e) / 2 ^ 53"
    by (simp add: u_eq)
  also have "\<dots> \<le> x / 2 ^ 53"
    using lo by (simp add: divide_right_mono)
  finally show ?thesis .
qed

lemma binary64_zero: "binary64 0 = 0"
  by (simp add: binary64_def)

text \<open>Division and multiplication of positive numbers are exact up to a factor.\<close>

lemma binary64_bounds:
  assumes "0 < x"
  shows "x * (1 - 1 / 2 ^ 53) \<le> binary64 x" and "binary64 x \<le> x * (1 + 1 / 2 ^ 53)"
proof -
  have e: "\<bar>binary64 x - x\<bar> \<le> x / 2 ^ 53"
    using assms by (rule binary64_error)
  have lo: "x * (1 - 1 / 2 ^ 53) = x - x / 2 ^ 53"
    by (simp only: right_diff_distrib mult_1_right times_divide_eq_right)
  have hi: "x * (1 + 1 / 2 ^ 53) = x + x / 2 ^ 53"
    by (simp only: distrib_left mult_1_right times_divide_eq_right)
  show "x * (1 - 1 / 2 ^ 53) \<le> binary64 x"
    unfolding lo using e by linarith
  show "binary64 x \<le> x * (1 + 1 / 2 ^ 53)"
    unfolding hi using e by linarith
qed

lemma score_bounds:
  assumes "0 < v"
  shows "v * 100 * (1 - 1 / 2 ^ 53) * (1 - 1 / 2 ^ 53) \<le> number_mul (binary64 v) 100"
    and "number_mul (binary64 v) 100 \<le> v * 100 * (1 + 1 / 2 ^ 53) * (1 + 1 / 2 ^ 53)"
proof -
  let ?lo = "1 - 1 / 2 ^ 53 :: real" and ?hi = "1 + 1 / 2 ^ 53 :: real"
  have lo_pos: "0 < ?lo" and hi_pos: "0 < ?hi" by simp_all
  have d: "v * ?lo \<le> binary64 v" "binary64 v \<le> v * ?hi"
    using binary64_bounds [OF assms] by simp_all
  have "0 < v * ?lo"
    using assms lo_pos by (rule mult_pos_pos)
  with d(1) have d_pos: "0 < binary64 v * 100" by simp
  have p: "binary64 v * 100 * ?lo \<le> number_mul (binary64 v) 100"
    "number_mul (binary64 v) 100 \<le> binary64 v * 100 * ?hi"
    unfolding number_mul_def using binary64_bounds [OF d_pos] by simp_all
  have "v * 100 * ?lo * ?lo = (v * ?lo) * (100 * ?lo)" by simp
  also have "\<dots> \<le> binary64 v * (100 * ?lo)"
    using d(1) lo_pos by (intro mult_right_mono) simp_all
  also have "\<dots> \<le> number_mul (binary64 v) 100"
    using p(1) by (simp add: mult.assoc)
  finally show "v * 100 * ?lo * ?lo \<le> number_mul (binary64 v) 100" .
  have "number_mul (binary64 v) 100 \<le> binary64 v * (100 * ?hi)"
    using p(2) by (simp add: mult.assoc)
  also have "\<dots> \<le> (v * ?hi) * (100 * ?hi)"
    using d(2) hi_pos by (intro mult_right_mono) simp_all
  also have "\<dots> = v * 100 * ?hi * ?hi" by simp
  finally show "number_mul (binary64 v) 100 \<le> v * 100 * ?hi * ?hi" .
qed

lemma Math_round_ge: "(80 \<le> Math_round p) = (159 / 2 \<le> p)"
proof -
  have "(80 \<le> Math_round p) = (of_int 80 \<le> p + 1 / 2)"
    unfolding Math_round_def by (rule le_floor_iff)
  also have "\<dots> = (159 / 2 \<le> p)"
    by auto
  finally show ?thesis .
qed

lemma exact_round_ge:
  assumes "0 < N"
  shows "(80 \<le> round (100 * real K / real N)) = (159 * N \<le> 200 * K)"
proof -
  have "(80 \<le> round (100 * real K / real N)) = (of_int 80 \<le> 100 * real K / real N + 1 / 2)"
    unfolding round_def by (rule le_floor_iff)
  also have "\<dots> = (159 / 2 \<le> 100 * real K / real N)"
    by auto
  also have "\<dots> = (159 * real N \<le> 200 * real K)"
    using assms by (simp add: field_simps)
  also have "\<dots> = (real (159 * N) \<le> real (200 * K))"
    by simp
  also have "\<dots> = (159 * N \<le> 200 * K)"
    by (rule of_nat_le_iff)
  finally show ?thesis .
qed


lemma no_tie:
  assumes "0 < N" and "N \<le> 50"
  shows "159 * N \<noteq> 200 * (K::nat)"
proof
  assume "159 * N = 200 * K"
  then have "200 dvd 159 * N" by simp
  moreover have "coprime (200::nat) 159"
    by (simp add: coprime_iff_gcd_eq_1 gcd_nat.simps)
  ultimately have "200 dvd N"
    by (simp add: coprime_dvd_mult_right_iff)
  with assms(1) have "200 \<le> N"
    by (simp add: dvd_imp_le)
  with assms(2) show False by simp
qed

lemma pass_threshold:
  assumes "0 < N" and "N \<le> 50" and "K \<le> N"
  shows "(80 \<le> Math_round (number_mul (number_div (real K) (real N)) 100)) =
         (159 * N \<le> 200 * K)"
proof (cases "K = 0")
  case True
  with assms(1) show ?thesis
    by (simp add: number_div_def number_mul_def binary64_zero Math_round_def)
next
  case False
  let ?v = "real K / real N"
  let ?p = "number_mul (binary64 ?v) 100"
  let ?lo = "1 - 1 / 2 ^ 53 :: real" and ?hi = "1 + 1 / 2 ^ 53 :: real"
  have v_pos: "0 < ?v"
    using False assms(1) by simp
  have N: "0 < real N" "real N \<le> 50"
    using assms(1,2) by simp_all
  show ?thesis
  proof (cases "159 * N \<le> 200 * K")
    case True
    with no_tie [OF assms(1,2), of K] have "159 * N + 1 \<le> 200 * K" by simp
    then have "real (159 * N + 1) \<le> real (200 * K)"
      by (simp only: of_nat_le_iff)
    then have "159 * real N + 1 \<le> 200 * real K"
      by simp
    with N have "7951 / 100 * real N \<le> 100 * real K" by linarith
    with N(1) have "7951 / 100 \<le> ?v * 100"
      by (simp add: field_simps)
    then have "7951 / 100 * ?lo * ?lo \<le> ?v * 100 * ?lo * ?lo"
      by (intro mult_right_mono) simp_all
    also have "\<dots> \<le> ?p"
      using v_pos by (rule score_bounds(1))
    finally have "7951 / 100 * ?lo * ?lo \<le> ?p" .
    moreover have "(159 / 2 :: real) \<le> 7951 / 100 * ?lo * ?lo"
      by simp
    ultimately have "159 / 2 \<le> ?p" by linarith
    with True show ?thesis
      by (simp only: Math_round_ge number_div_def)
  next
    case False
    then have "200 * K + 1 \<le> 159 * N" by simp
    then have "real (200 * K + 1) \<le> real (159 * N)"
      by (simp only: of_nat_le_iff)
    then have "200 * real K + 1 \<le> 159 * real N"
      by simp
    with N have "100 * real K \<le> 7949 / 100 * real N" by linarith
    with N(1) have "?v * 100 \<le> 7949 / 100"
      by (simp add: field_simps)
    then have "?v * 100 * ?hi * ?hi \<le> 7949 / 100 * ?hi * ?hi"
      by (intro mult_right_mono) simp_all
    moreover have "?p \<le> ?v * 100 * ?hi * ?hi"
      using v_pos by (rule score_bounds(2))
    moreover have "7949 / 100 * ?hi * ?hi < (159 / 2 :: real)"
      by simp
    ultimately have "\<not> 159 / 2 \<le> ?p" by linarith
    with False show ?thesis
      by (simp only: Math_round_ge number_div_def)
  qed
qed

text \<open>
  The summary of a practice-test deck (at most \<open>PRACTICE_TEST_SIZE\<close> cards) with
  \<open>N\<close> cards and a correct-count of \<open>K\<close> at most \<open>N\<close>.
\<close>

lemma render_summary:
  assumes "mode st = PracticeTest" and "showSummary st" and "deck st \<noteq> []"
    and "length (deck st) \<le> PRACTICE_TEST_SIZE" and "correctCount st \<le> length (deck st)"
  shows "\<exists>s. render st = SummaryView s \<and>
           sum_passed s =
             (80 \<le> round (100 * real (correctCount st) / real (length (deck st)))) \<and>
           sum_correct s = correctCount st \<and>
           sum_incorrect s = int (length (deck st) - correctCount st) \<and>
           sum_total s = length (deck st)"
proof -
  let ?N = "length (deck st)" and ?K = "correctCount st"
  have N: "0 < ?N" "?N \<le> 50"
    using assms(3,4) by (simp_all add: PRACTICE_TEST_SIZE_def)
  have "(80 \<le> Math_round (number_mul (number_div (real ?K) (real ?N)) 100)) =
        (159 * ?N \<le> 200 * ?K)"
    using N assms(5) by (rule pass_threshold)
  also have "\<dots> = (80 \<le> round (100 * real ?K / real ?N))"
    using N(1) by (rule exact_round_ge [symmetric])
  finally have p: "(80 \<le> Math_round (number_mul (number_div (real ?K) (real ?N)) 100)) =
        (80 \<le> round (100 * real ?K / real ?N))" .
  have i: "int ?N - int ?K = int (?N - ?K)"
    using assms(5) by simp
  let ?score = "Math_round (number_mul (number_div (real ?K) (real ?N)) 100)"
  let ?s = "\<lparr> sum_scorePercent = ?score, sum_passed = (80 \<le> ?score), sum_correct = ?K,
              sum_incorrect = int ?N - int ?K, sum_total = ?N \<rparr>"
  have r: "render st = SummaryView ?s"
    using assms(1,2,3) by (simp add: render_def Let_def)
  show ?thesis
  proof (intro exI conjI)
    show "render st = SummaryView ?s" by (rule r)
    show "sum_passed ?s = (80 \<le> round (100 * real ?K / real ?N))"
      by (simp only: summary.select_convs p)
    show "sum_correct ?s = ?K" by (simp only: summary.select_convs)
    show "sum_incorrect ?s = int (?N - ?K)" by (simp only: summary.select_convs i)
    show "sum_total ?s = ?N" by (simp only: summary.select_convs)
  qed
qed

section \<open>A practice test taken to its end\<close>

lemma answerAll_run:
  assumes "mode st = PracticeTest" and "selectedOption st = None" and "clicks \<noteq> []"
    and "currentIndex st + length clicks = length (deck st)"
  shows "\<exists>st'. answerAll allSources clicks st g = Inr (st', g) \<and> deck st' = deck st \<and>
           mode st' = PracticeTest \<and> showSummary st' \<and>
           correctCount st' =
             correctCount st + correctClicks clicks (drop (currentIndex st) (deck st))"
  using assms
proof (induction clicks arbitrary: st)
  case Nil
  then show ?case by simp
next
  case (Cons c rest)
  let ?i = "currentIndex st" and ?d = "deck st"
  from Cons.prems(4) have i: "?i < length ?d" by simp
  define hit where "hit = (if c = q_answerIndex (?d ! ?i) then 1 else 0 :: nat)"
  define st1 where "st1 = st\<lparr>selectedOption := Some c, correctCount := correctCount st + hit\<rparr>"
  have click: "handleOptionClick c st = Inr st1"
    using Cons.prems(1,2) i
    by (simp add: handleOptionClick_def currentQuestion_def Let_def st1_def hit_def)
  have d: "drop ?i ?d = ?d ! ?i # drop (Suc ?i) ?d"
    using i by (simp add: Cons_nth_drop_Suc)
  have count: "correctClicks (c # rest) (drop ?i ?d) = hit + correctClicks rest (drop (Suc ?i) ?d)"
    by (simp add: correctClicks_def d hit_def)
  show ?case
  proof (cases "rest = []")
    case True
    with Cons.prems(4) have last: "\<not> ?i + 1 < length ?d" by simp
    have "handleNext allSources st1 g = (st1\<lparr>showSummary := True\<rparr>, g)"
      using last Cons.prems(1) by (simp add: handleNext_def st1_def)
    with click True have "answerAll allSources (c # rest) st g = Inr (st1\<lparr>showSummary := True\<rparr>, g)"
      by simp
    moreover have "correctClicks rest (drop (Suc ?i) ?d) = 0"
      using True by (simp add: correctClicks_def)
    ultimately show ?thesis
      using Cons.prems(1) count by (simp add: st1_def)
  next
    case False
    with Cons.prems(4) have more: "?i + 1 < length ?d"
      by (cases rest) simp_all
    define st2 where "st2 = st1\<lparr>currentIndex := ?i + 1, selectedOption := None\<rparr>"
    have next_card: "handleNext allSources st1 g = (st2, g)"
      using more by (simp add: handleNext_def st1_def st2_def)
    have "\<exists>st'. answerAll allSources rest st2 g = Inr (st', g) \<and> deck st' = deck st2 \<and>
           mode st' = PracticeTest \<and> showSummary st' \<and>
           correctCount st' =
             correctCount st2 + correctClicks rest (drop (currentIndex st2) (deck st2))"
    proof (rule Cons.IH)
      show "mode st2 = PracticeTest"
        using Cons.prems(1) by (simp add: st2_def st1_def)
      show "selectedOption st2 = None"
        by (simp add: st2_def)
      show "rest \<noteq> []" by (rule False)
      show "currentIndex st2 + length rest = length (deck st2)"
        using Cons.prems(4) by (simp add: st2_def st1_def)
    qed
    then obtain st' where st': "answerAll allSources rest st2 g = Inr (st', g)"
      "deck st' = deck st2" "mode st' = PracticeTest" "showSummary st'"
      "correctCount st' =
         correctCount st2 + correctClicks rest (drop (currentIndex st2) (deck st2))"
      by blast
    have "answerAll allSources (c # rest) st g = Inr (st', g)"
      using click next_card st'(1) by simp
    moreover have "deck st' = ?d"
      using st'(2) by (simp add: st2_def st1_def)
    moreover have "correctCount st' =
        correctCount st + correctClicks (c # rest) (drop ?i ?d)"
      using st'(5) count by (simp add: st2_def st1_def)
    ultimately show ?thesis
      using st'(3,4) by blast
  qed
qed

lemma correctClicks_le: "correctClicks clicks cards \<le> length cards"
proof -
  have "correctClicks clicks cards \<le> length (zip clicks cards)"
    unfolding correctClicks_def by (rule length_filter_le)
  then show ?thesis by simp
qed

section \<open>The claim about the summary\<close>

text \<open>
  C6. A practice test starts on the first card of a deck of \<open>N\<close> cards, at most
  \<open>PRACTICE_TEST_SIZE\<close>, with score 0. When the user answers every card once and
  advances, \<open>K\<close> of the clicks being on the answer index of their card, the run ends
  on the summary with a correct-count of \<open>K\<close>; the summary reports a pass exactly when
  \<open>round (100 * K / N)\<close>, computed exactly, is at least 80, and it shows \<open>K\<close>
  correct, \<open>N - K\<close> incorrect and \<open>N\<close> in total.
\<close>

theorem practice_test_summary:
  assumes "mode st = PracticeTest" and "selectedOption st = None" and "currentIndex st = 0"
    and "correctCount st = 0" and "deck st \<noteq> []"
    and "length (deck st) \<le> PRACTICE_TEST_SIZE" and "length clicks = length (deck st)"
  shows "\<exists>st' s. answerAll allSources clicks st g = Inr (st', g) \<and>
           correctCount st' = correctClicks clicks (deck st) \<and>
           render st' = SummaryView s \<and>
           sum_passed s =
             (80 \<le> round (100 * real (correctClicks clicks (deck st)) / real (length (deck st)))) \<and>
           sum_correct s = correctClicks clicks (deck st) \<and>
           sum_incorrect s = int (length (deck st) - correctClicks clicks (deck st)) \<and>
           sum_total s = length (deck st)"
proof -
  from assms(5,7) have ne: "clicks \<noteq> []" by auto
  from assms(3,7) have len: "currentIndex st + length clicks = length (deck st)" by simp
  from answerAll_run [OF assms(1,2) ne len, of allSources g]
  obtain st' where st': "answerAll allSources clicks st g = Inr (st', g)" "deck st' = deck st"
    "mode st' = PracticeTest" "showSummary st'"
    "correctCount st' = correctCount st + correctClicks clicks (drop (currentIndex st) (deck st))"
    by blast
  from st'(5) assms(3,4) have k: "correctCount st' = correctClicks clicks (deck st)"
    by simp
  have le: "correctCount st' \<le> length (deck st')"
    unfolding k st'(2) by (rule correctClicks_le)
  from render_summary [OF st'(3,4) _ _ le] assms(5,6) st'(2)
  obtain s where s: "render st' = SummaryView s"
    "sum_passed s = (80 \<le> round (100 * real (correctCount st') / real (length (deck st'))))"
    "sum_correct s = correctCount st'"
    "sum_incorrect s = int (length (deck st') - correctCount st')"
    "sum_total s = length (deck st')"
    by auto
  show ?thesis
    using st'(1) k s unfolding st'(2) by (intro exI conjI) simp_all
qed

theorem practice_test_summary_witness:
  "mode example_session = PracticeTest \<and> selectedOption example_session = None \<and>
   currentIndex example_session = 0 \<and> correctCount example_session = 0 \<and>
   deck example_session \<noteq> [] \<and> length (deck example_session) \<le> PRACTICE_TEST_SIZE \<and>
   length [0, 3, 2, 0 :: nat] = length (deck example_session) \<and>
   correctClicks [0, 3, 2, 0] (deck example_session) = 3 \<and>
   (case answerAll example_bank [0, 3, 2, 0] example_session counting_rng of
      Inl e \<Rightarrow> False
    | Inr (st', g') \<Rightarrow>
        (case render st' of
           SummaryView s \<Rightarrow>
             \<not> sum_passed s \<and> sum_correct s = 3 \<and> sum_incorrect s = 1 \<and> sum_total s = 4
         | _ \<Rightarrow> False))"
proof -
  have l: "length (deck example_session) = 4"
    by (simp add: example_session_def buildDeck_length example_bank_def)
  have h: "mode example_session = PracticeTest" "selectedOption example_session = None"
    "currentIndex example_session = 0" "correctCount example_session = 0"
    "deck example_session \<noteq> []" "length (deck example_session) \<le> PRACTICE_TEST_SIZE"
    "length [0, 3, 2, 0 :: nat] = length (deck example_session)"
    using l by (auto simp: example_session_def PRACTICE_TEST_SIZE_def)
  have k: "correctClicks [0, 3, 2, 0] (deck example_session) = 3"
    by code_simp
  have r: "\<not> 80 \<le> round (100 * real 3 / real 4)"
    using exact_round_ge [of 4 3] by simp
  from practice_test_summary [OF h, of example_bank counting_rng]
  obtain st' s where s: "answerAll example_bank [0, 3, 2, 0] example_session counting_rng =
      Inr (st', counting_rng)"
    "render st' = SummaryView s"
    "sum_passed s = (80 \<le> round (100 * real (correctClicks [0, 3, 2, 0] (deck example_session)) /
       real (length (deck example_session))))"
    "sum_correct s = correctClicks [0, 3, 2, 0] (deck example_session)"
    "sum_incorrect s =
       int (length (deck example_session) - correctClicks [0, 3, 2, 0] (deck example_session))"
    "sum_total s = length (deck example_session)"
    by blast
  from s(3) r l k have "\<not> sum_passed s" by simp
  moreover from s(4) k have "sum_correct s = 3" by simp
  moreover from s(5) l k have "sum_incorrect s = 1" by simp
  moreover from s(6) l have "sum_total s = 4" by simp
  ultimately have "case answerAll example_bank [0, 3, 2, 0] example_session counting_rng of
      Inl e \<Rightarrow> False
    | Inr (st', g') \<Rightarrow>
        (case render st' of
           SummaryView s \<Rightarrow>
             \<not> sum_passed s \<and> sum_correct s = 3 \<and> sum_incorrect s = 1 \<and> sum_total s = 4
         | _ \<Rightarrow> False)"
    using s(1,2) by simp
  with h k show ?thesis
    by (intro conjI)
qed

end
